theory Spec2Isabelle
  imports Main "HOL-Library.AList" "HOL-Library.Sublist"
begin

section \<open>Data model of runner.ts\<close>

text \<open>
  The release channel, the parameter \<^verbatim>\<open>kind: "stable" | "nightly"\<close> of
  \<^verbatim>\<open>shouldBuild\<close> and \<^verbatim>\<open>doBuild\<close>, and the \<^verbatim>\<open>action\<close> field of a
  \<^verbatim>\<open>BuildDefs\<close> entry.
\<close>

datatype kind = Stable | Nightly

datatype action = Create | Update | Ignore

text \<open>
  Modelled from the spec: \<^verbatim>\<open>BuildSchema\<close> is declared in prepare.ts, which is not
  part of the sources at hand. The fields are the ones runner.ts reads:
  \<^verbatim>\<open>active\<close> (boolean, default true), \<^verbatim>\<open>only\<close> (optional channel),
  \<^verbatim>\<open>min_version\<close> (optional string) and the two filename templates
  \<^verbatim>\<open>meta.stable_name\<close>, \<^verbatim>\<open>meta.nightly_name\<close>.
\<close>

record Meta =
  stable_name :: string
  nightly_name :: string

record BuildSchema =
  active :: bool
  only :: "kind option"
  min_version :: "string option"
  meta :: Meta

text \<open>
  One entry of a tracker file \<^verbatim>\<open>last_<kind>.json\<close>:
  \<^verbatim>\<open>{version: string, md5: string, assetId: number}\<close>, where \<^verbatim>\<open>assetId\<close> is
  missing when the entry was written from a decision without one. An entry of
  \<^verbatim>\<open>BuildDefs\<close> has the same three fields and adds \<^verbatim>\<open>build\<close> and
  \<^verbatim>\<open>action\<close>.
\<close>

record tracked =
  version :: string
  md5 :: string
  assetId :: "int option"

record BuildDef = tracked +
  build :: BuildSchema
  action :: action

text \<open>
  \<^verbatim>\<open>BuildDefs\<close> is a JavaScript object used as a dictionary. It is kept as an
  association list in insertion order; \<^verbatim>\<open>newBuilds[buildName] = v\<close> is
  \<^const>\<open>AList.update\<close>: an existing key keeps its place, a new key goes last.
  (JavaScript lists keys that are canonical array indices first; build names are file
  paths, and nothing below depends on the order.)  The catalog
  \<^verbatim>\<open>Object.entries(loadedBuilds)\<close> is the list of its entries, whose keys are distinct.
\<close>

type_synonym BuildDefs = "(string \<times> BuildDef) list"

type_synonym catalog = "(string \<times> BuildSchema) list"

text \<open>
  What the function can throw: the dereference of a missing tracker record
  (\<^verbatim>\<open>trackedBuilds[buildName].assetId\<close> on \<^verbatim>\<open>undefined\<close>), a rejected
  \<^verbatim>\<open>readFile\<close>, the \<^verbatim>\<open>Error\<close> for an invalid \<^verbatim>\<open>min_version\<close> (build name and
  the offending string), and a failure of an external collaborator.
\<close>

datatype error =
  TypeError string
  | ReadError string
  | ConfigError string string
  | External string

text \<open>
  The libraries and the file system the function calls are parameters: the three
  functions of the \<^verbatim>\<open>semver\<close> package (\<^verbatim>\<open>valid\<close> as a truth value,
  \<^verbatim>\<open>coerce\<close> returning a parsed version or null, \<^verbatim>\<open>lt\<close> comparing a parsed
  version with a version string), \<^verbatim>\<open>readFile\<close> (the content, or \<open>None\<close> when the
  read is rejected) and the md5 digest in hex.
\<close>

record 'v env =
  semver_valid :: "string \<Rightarrow> bool"
  semver_coerce :: "string \<Rightarrow> 'v option"
  semver_lt :: "'v \<Rightarrow> string \<Rightarrow> bool"
  readFile :: "string \<Rightarrow> string option"
  md5_hex :: "string \<Rightarrow> string"

section \<open>shouldBuild\<close>

text \<open>
  The test that opens both loops (lines 117 and 164):
  \<^verbatim>\<open>loadedBuild.active === false || (loadedBuild.only && loadedBuild.only !== kind)\<close>.
\<close>

definition disabled :: "kind \<Rightarrow> BuildSchema \<Rightarrow> bool" where
  "disabled k b =
     (if active b = False then True
      else (case only b of None \<Rightarrow> False | Some c \<Rightarrow> c \<noteq> k))"

text \<open>
  The version gate, written out twice in the source (lines 131-141 and 169-179).
  \<^verbatim>\<open>loadedBuild.min_version\<close> is tested for truthiness, so the empty string counts
  as unset. The result is the thrown error, or whether the build is skipped
  (\<^verbatim>\<open>continue\<close>).
\<close>

definition min_version_gate ::
  "'v env \<Rightarrow> string \<Rightarrow> kind \<Rightarrow> string \<Rightarrow> BuildSchema \<Rightarrow> error + bool" where
  "min_version_gate E latestVersion k buildName b =
     (case min_version b of
        None \<Rightarrow> Inr False
      | Some mv \<Rightarrow>
          if k = Stable \<and> mv \<noteq> [] then
            (if semver_valid E mv then
               (case semver_coerce E latestVersion of
                  None \<Rightarrow> Inr False
                | Some parsedLatest \<Rightarrow> Inr (semver_lt E parsedLatest mv))
             else Inl (ConfigError buildName mv))
          else Inr False)"

text \<open>What one iteration of a loop does: throw, \<^verbatim>\<open>continue\<close> without an entry, or
  assign an entry to \<^verbatim>\<open>newBuilds[buildName]\<close>.\<close>

datatype outcome = Throw error | Continue | Assign BuildDef

text \<open>The body of the loop inside \<^verbatim>\<open>try\<close> (lines 113-158).\<close>

definition try_body ::
  "'v env \<Rightarrow> string \<Rightarrow> kind \<Rightarrow> (string \<Rightarrow> tracked option) \<Rightarrow> string \<Rightarrow> BuildSchema \<Rightarrow> outcome" where
  "try_body E latestVersion k trackedBuilds buildName loadedBuild =
     (case readFile E buildName of
        None \<Rightarrow> Throw (ReadError buildName)
      | Some content \<Rightarrow>
          if disabled k loadedBuild then
            (case trackedBuilds buildName of
               None \<Rightarrow> Throw (TypeError buildName)
             | Some t \<Rightarrow>
                 Assign \<lparr>version = latestVersion, md5 = md5_hex E content, assetId = assetId t,
                   build = loadedBuild, action = Ignore\<rparr>)
          else
            (case min_version_gate E latestVersion k buildName loadedBuild of
               Inl e \<Rightarrow> Throw e
             | Inr True \<Rightarrow> Continue
             | Inr False \<Rightarrow>
                 (case trackedBuilds buildName of
                    None \<Rightarrow>
                      Assign \<lparr>version = latestVersion, md5 = md5_hex E content, assetId = None,
                        build = loadedBuild, action = Create\<rparr>
                  | Some t \<Rightarrow>
                      if version t \<noteq> latestVersion then
                        Assign \<lparr>version = latestVersion, md5 = md5_hex E content,
                          assetId = None, build = loadedBuild, action = Create\<rparr>
                      else if md5_hex E content \<noteq> md5 t then
                        Assign \<lparr>version = latestVersion, md5 = md5_hex E content,
                          assetId = assetId t, build = loadedBuild, action = Update\<rparr>
                      else
                        Assign \<lparr>version = latestVersion, md5 = md5_hex E content,
                          assetId = assetId t, build = loadedBuild, action = Ignore\<rparr>)))"

text \<open>The body of the loop inside \<^verbatim>\<open>catch\<close> (lines 163-184): the file is read only
  for a build that is neither disabled nor skipped by the version gate.\<close>

definition catch_body ::
  "'v env \<Rightarrow> string \<Rightarrow> kind \<Rightarrow> string \<Rightarrow> BuildSchema \<Rightarrow> outcome" where
  "catch_body E latestVersion k buildName loadedBuild =
     (if disabled k loadedBuild then Continue
      else
        (case min_version_gate E latestVersion k buildName loadedBuild of
           Inl e \<Rightarrow> Throw e
         | Inr True \<Rightarrow> Continue
         | Inr False \<Rightarrow>
             (case readFile E buildName of
                None \<Rightarrow> Throw (ReadError buildName)
              | Some content \<Rightarrow>
                  Assign \<lparr>version = latestVersion, md5 = md5_hex E content, assetId = None,
                    build = loadedBuild, action = Create\<rparr>)))"

text \<open>
  The loop of the \<^verbatim>\<open>try\<close> block. \<^verbatim>\<open>newBuilds\<close> is declared before
  \<^verbatim>\<open>try\<close> and mutated in place, so when an iteration throws, the entries assigned so
  far are still there when the handler runs: the loop returns them with the error.
\<close>

fun try_loop ::
  "'v env \<Rightarrow> string \<Rightarrow> kind \<Rightarrow> (string \<Rightarrow> tracked option) \<Rightarrow> catalog \<Rightarrow> BuildDefs
     \<Rightarrow> error option \<times> BuildDefs" where
  "try_loop E latestVersion k trackedBuilds [] newBuilds = (None, newBuilds)"
| "try_loop E latestVersion k trackedBuilds ((buildName, loadedBuild) # rest) newBuilds =
     (case try_body E latestVersion k trackedBuilds buildName loadedBuild of
        Throw e \<Rightarrow> (Some e, newBuilds)
      | Continue \<Rightarrow> try_loop E latestVersion k trackedBuilds rest newBuilds
      | Assign d \<Rightarrow>
          try_loop E latestVersion k trackedBuilds rest (AList.update buildName d newBuilds))"

text \<open>The loop of the handler; an error thrown here leaves the function.\<close>

fun catch_loop ::
  "'v env \<Rightarrow> string \<Rightarrow> kind \<Rightarrow> catalog \<Rightarrow> BuildDefs \<Rightarrow> error + BuildDefs" where
  "catch_loop E latestVersion k [] newBuilds = Inr newBuilds"
| "catch_loop E latestVersion k ((buildName, loadedBuild) # rest) newBuilds =
     (case catch_body E latestVersion k buildName loadedBuild of
        Throw e \<Rightarrow> Inl e
      | Continue \<Rightarrow> catch_loop E latestVersion k rest newBuilds
      | Assign d \<Rightarrow> catch_loop E latestVersion k rest (AList.update buildName d newBuilds))"

text \<open>
  \<^verbatim>\<open>shouldBuild\<close>. The tracker argument is what
  \<^verbatim>\<open>require(`../last_${kind}.json`)\<close> gives: \<open>None\<close> when it throws (no file, or not
  JSON), otherwise the dictionary of tracked builds. The handler \<^verbatim>\<open>catch (_e)\<close>
  takes every exception of the \<^verbatim>\<open>try\<close> block, whichever statement threw it.
\<close>

definition all_ignore :: "BuildDefs \<Rightarrow> bool" where
  "all_ignore newBuilds = list_all (\<lambda>p. action (snd p) = Ignore) newBuilds"

definition shouldBuild_defs ::
  "'v env \<Rightarrow> string \<Rightarrow> kind \<Rightarrow> (string \<Rightarrow> tracked option) option \<Rightarrow> catalog
     \<Rightarrow> error + BuildDefs" where
  "shouldBuild_defs E latestVersion k tracker loadedBuilds =
     (case tracker of
        None \<Rightarrow> catch_loop E latestVersion k loadedBuilds []
      | Some trackedBuilds \<Rightarrow>
          (case try_loop E latestVersion k trackedBuilds loadedBuilds [] of
             (None, newBuilds) \<Rightarrow> Inr newBuilds
           | (Some e, newBuilds) \<Rightarrow> catch_loop E latestVersion k loadedBuilds newBuilds))"

definition shouldBuild ::
  "'v env \<Rightarrow> string \<Rightarrow> kind \<Rightarrow> (string \<Rightarrow> tracked option) option \<Rightarrow> catalog
     \<Rightarrow> error + (bool \<times> BuildDefs)" where
  "shouldBuild E latestVersion k tracker loadedBuilds =
     (case shouldBuild_defs E latestVersion k tracker loadedBuilds of
        Inl e \<Rightarrow> Inl e
      | Inr newBuilds \<Rightarrow> Inr (all_ignore newBuilds, newBuilds))"

section \<open>Filename templates\<close>

text \<open>
  \<^verbatim>\<open>String.prototype.replace\<close> with a string pattern replaces the first occurrence
  only. The replacement string is read as a template: \<^verbatim>\<open>$$\<close> gives a dollar sign,
  \<^verbatim>\<open>$&\<close> the matched text, \<^verbatim>\<open>$`\<close> the text before the match and
  \<^verbatim>\<open>$'\<close> the text after it; with a string pattern there are no capture groups, so
  every other \<^verbatim>\<open>$\<close> stays as it is. Strings are lists of \<open>char\<close>; the
  placeholders and the characters that matter here are ASCII.
\<close>

fun get_substitution :: "string \<Rightarrow> string \<Rightarrow> string \<Rightarrow> string \<Rightarrow> string" where
  "get_substitution matched before after [] = []"
| "get_substitution matched before after [c] = [c]"
| "get_substitution matched before after (c # d # cs) =
     (if c = CHR ''$'' \<and> d = CHR ''$'' then CHR ''$'' # get_substitution matched before after cs
      else if c = CHR ''$'' \<and> d = CHR ''&'' then matched @ get_substitution matched before after cs
      else if c = CHR ''$'' \<and> d = CHR 0x60 then before @ get_substitution matched before after cs
      else if c = CHR ''$'' \<and> d = CHR 0x27 then after @ get_substitution matched before after cs
      else c # get_substitution matched before after (d # cs))"

text \<open>The scan for the first occurrence: \<open>before\<close> is the text already passed.\<close>

fun js_replace_from :: "string \<Rightarrow> string \<Rightarrow> string \<Rightarrow> string \<Rightarrow> string" where
  "js_replace_from pat rep before [] =
     (if pat = [] then before @ get_substitution pat before [] rep else before)"
| "js_replace_from pat rep before (c # cs) =
     (if prefix pat (c # cs) then
        before @ get_substitution pat before (drop (length pat) (c # cs)) rep
          @ drop (length pat) (c # cs)
      else js_replace_from pat rep (before @ [c]) cs)"

definition js_replace :: "string \<Rightarrow> string \<Rightarrow> string \<Rightarrow> string" where
  "js_replace pat rep s = js_replace_from pat rep [] s"

text \<open>\<^verbatim>\<open>toString()\<close> of a non-negative integer: its decimal digits.\<close>

definition digit_char :: "nat \<Rightarrow> char" where
  "digit_char d = ''0123456789'' ! d"

fun nat_toString :: "nat \<Rightarrow> string" where
  "nat_toString n =
     (if n < 10 then [digit_char n] else nat_toString (n div 10) @ [digit_char (n mod 10)])"

declare nat_toString.simps [simp del]

text \<open>
  Lines 204-209: the four replacements in the order of the source, then the extension.
  \<open>uid\<close> is the value \<^verbatim>\<open>randomInt(100000, 999999)\<close> returned, at least 100000 and
  less than 999999.
\<close>

definition render_filename :: "string \<Rightarrow> string \<Rightarrow> string \<Rightarrow> nat \<Rightarrow> nat \<Rightarrow> string" where
  "render_filename template latestVersion currentDate timestamp uid =
     (let filename =
        js_replace ''{{uid}}'' (nat_toString uid)
          (js_replace ''{{timestamp}}'' (nat_toString timestamp)
            (js_replace ''{{current_date}}'' currentDate
              (js_replace ''{{marlin_version}}'' latestVersion template)))
      in if suffix ''.bin'' filename then filename else filename @ ''.bin'')"

text \<open>
  To say what rendering a template gives, a template is described by its pieces: literal
  text and placeholders. \<open>fill tag\<close> spells the template the way it stands in the
  catalog; \<open>fill\<close> with the values of a run spells the text in which every placeholder
  has been replaced by its value.
\<close>

datatype placeholder = MarlinVersion | CurrentDate | Timestamp | Uid

datatype piece = Text string | Hole placeholder

fun tag :: "placeholder \<Rightarrow> string" where
  "tag MarlinVersion = ''{{marlin_version}}''"
| "tag CurrentDate = ''{{current_date}}''"
| "tag Timestamp = ''{{timestamp}}''"
| "tag Uid = ''{{uid}}''"

fun fill :: "(placeholder \<Rightarrow> string) \<Rightarrow> piece list \<Rightarrow> string" where
  "fill f [] = []"
| "fill f (Text t # ps) = t @ fill f ps"
| "fill f (Hole h # ps) = f h @ fill f ps"

fun holes :: "piece list \<Rightarrow> placeholder list" where
  "holes [] = []"
| "holes (Text t # ps) = holes ps"
| "holes (Hole h # ps) = h # holes ps"

fun texts :: "piece list \<Rightarrow> string list" where
  "texts [] = []"
| "texts (Text t # ps) = t # texts ps"
| "texts (Hole h # ps) = texts ps"

fun placeholder_values :: "string \<Rightarrow> string \<Rightarrow> nat \<Rightarrow> nat \<Rightarrow> placeholder \<Rightarrow> string" where
  "placeholder_values v date ts uid MarlinVersion = v"
| "placeholder_values v date ts uid CurrentDate = date"
| "placeholder_values v date ts uid Timestamp = nat_toString ts"
| "placeholder_values v date ts uid Uid = nat_toString uid"

text \<open>A string with no opening brace and no dollar sign: put in as a replacement it is
  taken literally and cannot complete a placeholder.\<close>

definition plain :: "string \<Rightarrow> bool" where
  "plain s = (CHR ''{'' \<notin> set s \<and> CHR ''$'' \<notin> set s)"

section \<open>doBuild\<close>

text \<open>An element of \<^verbatim>\<open>assets\<close>:
  \<^verbatim>\<open>{buildName, filename, buildPath, action, assetId}\<close>, the last two taken from the
  decision it was built from. The field names carry a prefix, since \<^verbatim>\<open>action\<close> and
  \<^verbatim>\<open>assetId\<close> already name the fields of a decision.\<close>

record asset =
  asset_buildName :: string
  asset_filename :: string
  asset_buildPath :: string
  asset_action :: action
  asset_assetId :: "int option"

text \<open>
  The values \<^verbatim>\<open>dayjs()\<close> gives at the start of \<^verbatim>\<open>doBuild\<close>, and the collaborators
  it calls. \<^verbatim>\<open>processBuild\<close>, \<^verbatim>\<open>createRelease\<close> and \<^verbatim>\<open>uploadAsset\<close> live in
  other modules; each is a parameter that returns its result or the error it throws.
  \<^verbatim>\<open>randomInt\<close> is indexed by the number of assets collected so far.
\<close>

record clock =
  currentDate :: string
  currentDateTime :: string
  timestamp :: nat

record collaborators =
  processBuild :: "string \<Rightarrow> BuildSchema \<Rightarrow> kind \<Rightarrow> string \<Rightarrow> error + string option"
  createRelease :: "string \<Rightarrow> kind \<Rightarrow> string \<Rightarrow> error + string"
  uploadAsset :: "string \<Rightarrow> asset \<Rightarrow> error + int"
  randomInt :: "nat \<Rightarrow> nat"

text \<open>
  What \<^verbatim>\<open>doBuild\<close> can change outside its own variables: the releases created, the
  assets uploaded (with the upload URL), and the tracker files \<^verbatim>\<open>last_<kind>.json\<close>,
  each absent or holding the entries \<^verbatim>\<open>writeFile\<close> stored.
\<close>

record world =
  releases :: "(string \<times> kind \<times> string) list"
  uploads :: "(string \<times> asset) list"
  tracker_file :: "kind \<Rightarrow> (string \<times> tracked) list option"

definition kind_name :: "kind \<Rightarrow> Meta \<Rightarrow> string" where
  "kind_name k m = (case k of Stable \<Rightarrow> stable_name m | Nightly \<Rightarrow> nightly_name m)"

text \<open>The first loop (lines 199-213). \<^verbatim>\<open>!buildPath\<close> holds for a missing path and
  for the empty string.\<close>

fun collect_assets ::
  "collaborators \<Rightarrow> clock \<Rightarrow> string \<Rightarrow> kind \<Rightarrow> BuildDefs \<Rightarrow> asset list \<Rightarrow> error + asset list" where
  "collect_assets X C latestVersion k [] assets = Inr assets"
| "collect_assets X C latestVersion k ((name, buildDef) # rest) assets =
     (if action buildDef = Ignore then collect_assets X C latestVersion k rest assets
      else
        (case processBuild X name (build buildDef) k latestVersion of
           Inl e \<Rightarrow> Inl e
         | Inr None \<Rightarrow> collect_assets X C latestVersion k rest assets
         | Inr (Some path) \<Rightarrow>
             if path = [] then collect_assets X C latestVersion k rest assets
             else
               collect_assets X C latestVersion k rest
                 (assets @
                   [\<lparr>asset_buildName = name,
                     asset_filename =
                       render_filename (kind_name k (meta (build buildDef))) latestVersion
                         (currentDate C) (timestamp C) (randomInt X (length assets)),
                     asset_buildPath = path, asset_action = action buildDef,
                     asset_assetId = assetId buildDef\<rparr>])))"

text \<open>\<^verbatim>\<open>buildDefs[asset.buildName].assetId = assetId\<close>: the entry exists, since the
  asset was collected from it.\<close>

definition set_assetId :: "string \<Rightarrow> int \<Rightarrow> BuildDefs \<Rightarrow> BuildDefs" where
  "set_assetId name aid buildDefs =
     map (\<lambda>(n, d). if n = name then (n, d\<lparr>assetId := Some aid\<rparr>) else (n, d)) buildDefs"

text \<open>The upload loop (lines 224-230): an upload that fails ends it, with the uploads
  made so far in place.\<close>

fun upload_assets ::
  "collaborators \<Rightarrow> string \<Rightarrow> asset list \<Rightarrow> BuildDefs \<Rightarrow> world
     \<Rightarrow> error option \<times> BuildDefs \<times> world" where
  "upload_assets X uploadUrl [] buildDefs w = (None, buildDefs, w)"
| "upload_assets X uploadUrl (a # rest) buildDefs w =
     (case uploadAsset X uploadUrl a of
        Inl e \<Rightarrow> (Some e, buildDefs, w)
      | Inr aid \<Rightarrow>
          upload_assets X uploadUrl rest (set_assetId (asset_buildName a) aid buildDefs)
            (w\<lparr>uploads := uploads w @ [(uploadUrl, a)]\<rparr>))"

text \<open>Lines 231-239: \<^verbatim>\<open>build\<close> and \<^verbatim>\<open>action\<close> are deleted from every entry and the
  rest is written; \<^verbatim>\<open>JSON.stringify\<close> leaves out an \<^verbatim>\<open>assetId\<close> that is undefined.\<close>

definition persist :: "BuildDefs \<Rightarrow> (string \<times> tracked) list" where
  "persist buildDefs =
     map (\<lambda>(n, d). (n, \<lparr>version = version d, md5 = md5 d, assetId = assetId d\<rparr>)) buildDefs"

text \<open>
  \<^verbatim>\<open>doBuild\<close>, with \<^verbatim>\<open>devMode\<close> as an argument. The result is the error that
  ended it, if any, and the world it leaves. Writing the tracker file is taken to succeed.
\<close>

definition doBuild ::
  "collaborators \<Rightarrow> clock \<Rightarrow> bool \<Rightarrow> string \<Rightarrow> kind \<Rightarrow> BuildDefs \<Rightarrow> world
     \<Rightarrow> error option \<times> world" where
  "doBuild X C devMode latestVersion k buildDefs w =
     (case collect_assets X C latestVersion k buildDefs [] of
        Inl e \<Rightarrow> (Some e, w)
      | Inr assets \<Rightarrow>
          if devMode then (None, w)
          else if assets = [] then (None, w)
          else
            (case createRelease X latestVersion k (currentDateTime C) of
               Inl e \<Rightarrow> (Some e, w)
             | Inr uploadUrl \<Rightarrow>
                 (case upload_assets X uploadUrl assets buildDefs
                         (w\<lparr>releases := releases w @ [(latestVersion, k, currentDateTime C)]\<rparr>) of
                    (Some e, buildDefs', w') \<Rightarrow> (Some e, w')
                  | (None, buildDefs', w') \<Rightarrow>
                      (None, w'\<lparr>tracker_file := (tracker_file w')(k := Some (persist buildDefs'))\<rparr>))))"

text \<open>What \<^verbatim>\<open>require\<close> gives the next run for a tracker file: nothing when there is no
  file, otherwise the dictionary of its entries.\<close>

definition load_tracker :: "world \<Rightarrow> kind \<Rightarrow> (string \<Rightarrow> tracked option) option" where
  "load_tracker w k = map_option map_of (tracker_file w k)"

section \<open>Sample inputs\<close>

text \<open>
  A small catalog entry and an environment on which the definitions above are evaluated:
  three build files, a digest that only tags the content, and the \<^verbatim>\<open>semver\<close>
  functions tabulated on the version strings that occur (\<^verbatim>\<open>2.1.1.1\<close> coerces to
  \<^verbatim>\<open>2.1.1\<close>, which is less than \<^verbatim>\<open>2.1.2\<close>).
\<close>

definition sample_build :: "bool \<Rightarrow> kind option \<Rightarrow> string option \<Rightarrow> BuildSchema" where
  "sample_build a c mv =
     \<lparr>active = a, only = c, min_version = mv,
      meta = \<lparr>stable_name = ''fw-{{marlin_version}}'', nightly_name = ''fw-{{current_date}}''\<rparr>\<rparr>"

definition sample_env :: "string env" where
  "sample_env =
     \<lparr>semver_valid = (\<lambda>s. s \<in> set [''2.1.1'', ''2.1.2'']),
      semver_coerce = map_of [(''2.1.1.1'', ''2.1.1''), (''2.1.1'', ''2.1.1''),
        (''2.1.2'', ''2.1.2''), (''2.1.2.1'', ''2.1.2'')],
      semver_lt = (\<lambda>v s. (v, s) \<in> set [(''2.1.1'', ''2.1.2'')]),
      readFile = map_of [(''a.json'', ''A''), (''b.json'', ''B''), (''c.json'', ''C'')],
      md5_hex = (\<lambda>content. ''md5-'' @ content)\<rparr>"

text \<open>A clock, collaborators that build, release and upload without failing, and a world
  with no release and no tracker file.\<close>

definition sample_clock :: clock where
  "sample_clock =
     \<lparr>currentDate = ''20240131'', currentDateTime = ''202401311200'', timestamp = 1706702400\<rparr>"

definition sample_collaborators :: collaborators where
  "sample_collaborators =
     \<lparr>processBuild = (\<lambda>name b k v. Inr (Some (''dist/'' @ name))),
      createRelease = (\<lambda>v k t. Inr ''upload-url''),
      uploadAsset = (\<lambda>url a. Inr 100),
      randomInt = (\<lambda>i. 123456)\<rparr>"

definition sample_world :: world where
  "sample_world = \<lparr>releases = [], uploads = [], tracker_file = (\<lambda>k. None)\<rparr>"

section \<open>Both loops as one iteration scheme\<close>

text \<open>
  The two loops differ only in their bodies. \<open>for_entries\<close> runs a body over the
  catalog entries; the facts about the loops are proved once for it.
\<close>

fun for_entries ::
  "(string \<Rightarrow> BuildSchema \<Rightarrow> outcome) \<Rightarrow> catalog \<Rightarrow> BuildDefs \<Rightarrow> error option \<times> BuildDefs" where
  "for_entries body [] nb = (None, nb)"
| "for_entries body ((n, b) # rest) nb =
     (case body n b of
        Throw e \<Rightarrow> (Some e, nb)
      | Continue \<Rightarrow> for_entries body rest nb
      | Assign d \<Rightarrow> for_entries body rest (AList.update n d nb))"

lemma try_loop_for_entries:
  "try_loop E lv k tb bs nb = for_entries (try_body E lv k tb) bs nb"
  by (induction bs arbitrary: nb) (auto split: outcome.splits)

lemma catch_loop_for_entries:
  "catch_loop E lv k bs nb =
     (case for_entries (catch_body E lv k) bs nb of
        (None, nb') \<Rightarrow> Inr nb' | (Some e, nb') \<Rightarrow> Inl e)"
  by (induction bs arbitrary: nb) (auto split: outcome.splits)

lemma for_entries_other:
  "for_entries body bs nb = (r, nb') \<Longrightarrow> n \<notin> fst ` set bs \<Longrightarrow> map_of nb' n = map_of nb n"
proof (induction bs arbitrary: nb)
  case Nil
  then show ?case by simp
next
  case (Cons p bs)
  obtain m b where p: "p = (m, b)" by (cases p)
  from Cons.prems have mn: "m \<noteq> n" and nin: "n \<notin> fst ` set bs" by (auto simp: p)
  show ?case
  proof (cases "body m b")
    case (Throw e)
    with Cons.prems show ?thesis by (auto simp: p)
  next
    case Continue
    with Cons.prems Cons.IH[OF _ nin] show ?thesis by (simp add: p)
  next
    case (Assign d)
    with Cons.prems have "for_entries body bs (AList.update m d nb) = (r, nb')" by (simp add: p)
    from Cons.IH[OF this nin] mn show ?thesis by (simp add: update_conv')
  qed
qed

lemma for_entries_lookup:
  "for_entries body bs nb = (r, nb') \<Longrightarrow> distinct (map fst bs) \<Longrightarrow> (n, b) \<in> set bs \<Longrightarrow>
   map_of nb' n = map_of nb n \<and> (r = None \<longrightarrow> body n b = Continue)
   \<or> (\<exists>d. body n b = Assign d \<and> map_of nb' n = Some d)"
proof (induction bs arbitrary: nb)
  case Nil
  then show ?case by simp
next
  case (Cons p bs)
  obtain m c where p: "p = (m, c)" by (cases p)
  from Cons.prems have dis: "distinct (map fst bs)" and mnot: "m \<notin> fst ` set bs"
    by (auto simp: p)
  show ?case
  proof (cases "(n, b) \<in> set bs")
    case True
    then have nm: "n \<noteq> m" using mnot by force
    show ?thesis
    proof (cases "body m c")
      case (Throw e)
      with Cons.prems show ?thesis by (auto simp: p)
    next
      case Continue
      with Cons.prems Cons.IH[OF _ dis True] show ?thesis by (simp add: p)
    next
      case (Assign d)
      with Cons.prems have "for_entries body bs (AList.update m d nb) = (r, nb')"
        by (simp add: p)
      from Cons.IH[OF this dis True] nm show ?thesis by (simp add: update_conv')
    qed
  next
    case False
    with Cons.prems have eq: "n = m" "b = c" by (auto simp: p)
    have nin: "n \<notin> fst ` set bs" using mnot eq by simp
    show ?thesis
    proof (cases "body m c")
      case (Throw e)
      with Cons.prems show ?thesis by (auto simp: p)
    next
      case Continue
      with Cons.prems for_entries_other[OF _ nin] show ?thesis by (simp add: p eq)
    next
      case (Assign d)
      with Cons.prems have "for_entries body bs (AList.update m d nb) = (r, nb')"
        by (simp add: p)
      from for_entries_other[OF this nin] Assign show ?thesis by (simp add: update_conv' eq)
    qed
  qed
qed


lemma for_entries_completes:
  "(\<And>n b e. (n, b) \<in> set bs \<Longrightarrow> body n b \<noteq> Throw e) \<Longrightarrow> fst (for_entries body bs nb) = None"
proof (induction bs arbitrary: nb)
  case Nil
  then show ?case by simp
next
  case (Cons p bs)
  obtain m c where p: "p = (m, c)" by (cases p)
  have rest: "\<And>nb. fst (for_entries body bs nb) = None"
    using Cons.IH Cons.prems by simp
  have "\<And>e. body m c \<noteq> Throw e" using Cons.prems[of m c] by (simp add: p)
  then show ?case using rest by (cases "body m c") (auto simp: p)
qed


lemma for_entries_distinct:
  "for_entries body bs nb = (r, nb') \<Longrightarrow> distinct (map fst nb) \<Longrightarrow> distinct (map fst nb')"
proof (induction bs arbitrary: nb)
  case Nil
  then show ?case by simp
next
  case (Cons p bs)
  obtain m c where p: "p = (m, c)" by (cases p)
  show ?case
  proof (cases "body m c")
    case (Throw e)
    with Cons.prems show ?thesis by (auto simp: p)
  next
    case Continue
    with Cons.prems Cons.IH show ?thesis by (simp add: p)
  next
    case (Assign d)
    with Cons.prems have "for_entries body bs (AList.update m d nb) = (r, nb')"
      by (simp add: p)
    from Cons.IH[OF this] Cons.prems(2) show ?thesis by (simp add: distinct_update)
  qed
qed

lemma for_entries_keys:
  "for_entries body bs nb = (r, nb') \<Longrightarrow> fst ` set nb' \<subseteq> fst ` set nb \<union> fst ` set bs"
proof (induction bs arbitrary: nb)
  case Nil
  then show ?case by simp
next
  case (Cons p bs)
  obtain m c where p: "p = (m, c)" by (cases p)
  show ?case
  proof (cases "body m c")
    case (Throw e)
    with Cons.prems show ?thesis by (auto simp: p)
  next
    case Continue
    with Cons.prems Cons.IH[of nb] show ?thesis by (auto simp: p)
  next
    case (Assign d)
    with Cons.prems have "for_entries body bs (AList.update m d nb) = (r, nb')"
      by (simp add: p)
    from Cons.IH[OF this] show ?thesis by (auto simp: p dom_update)
  qed
qed

lemma shouldBuild_defs_cases:
  assumes "shouldBuild_defs E lv k tracker bs = Inr decs"
  shows "(\<exists>tb. tracker = Some tb \<and> try_loop E lv k tb bs [] = (None, decs))
       \<or> (\<exists>nb. (tracker = None \<and> nb = []
                  \<or> (\<exists>tb e. tracker = Some tb \<and> try_loop E lv k tb bs [] = (Some e, nb)))
               \<and> catch_loop E lv k bs nb = Inr decs)"
  using assms unfolding shouldBuild_defs_def
  by (auto split: option.splits prod.splits)

lemma shouldBuild_Inr:
  "shouldBuild E lv k tracker bs = Inr (ig, decs) \<longleftrightarrow>
     shouldBuild_defs E lv k tracker bs = Inr decs \<and> ig = all_ignore decs"
  unfolding shouldBuild_def by (auto split: sum.splits)


lemma catch_loop_Inr:
  "catch_loop E lv k bs nb = Inr decs \<longleftrightarrow> for_entries (catch_body E lv k) bs nb = (None, decs)"
  by (auto simp: catch_loop_for_entries split: prod.splits option.splits)


lemma shouldBuild_defs_elim:
  assumes "shouldBuild_defs E lv k tracker bs = Inr decs"
  obtains (tracked) tb where "tracker = Some tb" "try_loop E lv k tb bs [] = (None, decs)"
  | (bootstrap) "tracker = None" "catch_loop E lv k bs [] = Inr decs"
  | (handler) tb e nb where "tracker = Some tb" "try_loop E lv k tb bs [] = (Some e, nb)"
      "catch_loop E lv k bs nb = Inr decs"
  using assms unfolding shouldBuild_defs_def
  by (auto split: option.splits prod.splits)

lemma shouldBuild_defs_distinct:
  assumes "shouldBuild_defs E lv k tracker bs = Inr decs"
  shows "distinct (map fst decs)"
  using assms
proof (cases rule: shouldBuild_defs_elim)
  case (tracked tb)
  from for_entries_distinct[OF tracked(2)[unfolded try_loop_for_entries]] show ?thesis by simp
next
  case bootstrap
  from for_entries_distinct[OF bootstrap(2)[unfolded catch_loop_Inr]] show ?thesis by simp
next
  case (handler tb e nb)
  from for_entries_distinct[OF handler(2)[unfolded try_loop_for_entries]]
  have "distinct (map fst nb)" by simp
  with for_entries_distinct[OF handler(3)[unfolded catch_loop_Inr]] show ?thesis by simp
qed

lemma shouldBuild_defs_keys:
  assumes "shouldBuild_defs E lv k tracker bs = Inr decs"
  shows "fst ` set decs \<subseteq> fst ` set bs"
  using assms
proof (cases rule: shouldBuild_defs_elim)
  case (tracked tb)
  from for_entries_keys[OF tracked(2)[unfolded try_loop_for_entries]] show ?thesis by simp
next
  case bootstrap
  from for_entries_keys[OF bootstrap(2)[unfolded catch_loop_Inr]] show ?thesis by simp
next
  case (handler tb e nb)
  from for_entries_keys[OF handler(2)[unfolded try_loop_for_entries]]
  have "fst ` set nb \<subseteq> fst ` set bs" by simp
  with for_entries_keys[OF handler(3)[unfolded catch_loop_Inr]] show ?thesis by blast
qed

section \<open>The loop bodies\<close>

lemma gate_True:
  "min_version b = Some mv \<Longrightarrow> mv \<noteq> [] \<Longrightarrow> semver_valid E mv \<Longrightarrow>
   semver_coerce E lv = Some v \<Longrightarrow> semver_lt E v mv \<Longrightarrow>
   min_version_gate E lv Stable n b = Inr True"
  by (simp add: min_version_gate_def)


lemma gate_Nightly: "min_version_gate E lv Nightly n b = Inr False"
  by (simp add: min_version_gate_def split: option.splits)


lemma try_body_skip:
  "\<not> disabled k b \<Longrightarrow> min_version_gate E lv k n b = Inr True \<Longrightarrow>
   try_body E lv k tb n b \<noteq> Assign d"
  by (simp add: try_body_def split: option.splits)

lemma catch_body_skip:
  "disabled k b \<or> min_version_gate E lv k n b = Inr True \<Longrightarrow> catch_body E lv k n b = Continue"
  by (auto simp: catch_body_def)

lemma catch_body_Assign:
  "catch_body E lv k n b = Assign d \<longleftrightarrow>
     \<not> disabled k b \<and> min_version_gate E lv k n b = Inr False \<and>
     (\<exists>content. readFile E n = Some content \<and>
        d = \<lparr>version = lv, md5 = md5_hex E content, assetId = None, build = b, action = Create\<rparr>)"
  by (auto simp: catch_body_def split: sum.splits bool.splits option.splits)

lemma catch_body_Continue:
  "catch_body E lv k n b = Continue \<longleftrightarrow>
     disabled k b \<or> min_version_gate E lv k n b = Inr True"
  by (auto simp: catch_body_def split: sum.splits bool.splits option.splits)


lemma try_body_disabled:
  "disabled k b \<Longrightarrow> try_body E lv k tb n b = Assign d \<longleftrightarrow>
     (\<exists>content t. readFile E n = Some content \<and> tb n = Some t \<and>
        d = \<lparr>version = lv, md5 = md5_hex E content, assetId = assetId t, build = b,
              action = Ignore\<rparr>)"
  by (auto simp: try_body_def split: option.splits)

lemma try_body_disabled_not_Continue:
  "disabled k b \<Longrightarrow> try_body E lv k tb n b \<noteq> Continue"
  by (auto simp: try_body_def split: option.splits)

lemma try_body_active_Continue:
  "\<not> disabled k b \<Longrightarrow> try_body E lv k tb n b = Continue \<longleftrightarrow>
     readFile E n \<noteq> None \<and> min_version_gate E lv k n b = Inr True"
  by (auto simp: try_body_def split: option.splits sum.splits bool.splits)

lemma try_body_active_Assign:
  "\<not> disabled k b \<Longrightarrow> try_body E lv k tb n b = Assign d \<longleftrightarrow>
     min_version_gate E lv k n b = Inr False \<and>
     (\<exists>content. readFile E n = Some content \<and>
       d = (case tb n of
              None \<Rightarrow> \<lparr>version = lv, md5 = md5_hex E content, assetId = None, build = b,
                        action = Create\<rparr>
            | Some t \<Rightarrow>
                if version t \<noteq> lv then
                  \<lparr>version = lv, md5 = md5_hex E content, assetId = None, build = b,
                    action = Create\<rparr>
                else if md5_hex E content \<noteq> md5 t then
                  \<lparr>version = lv, md5 = md5_hex E content, assetId = assetId t, build = b,
                    action = Update\<rparr>
                else
                  \<lparr>version = lv, md5 = md5_hex E content, assetId = assetId t, build = b,
                    action = Ignore\<rparr>))"
  by (auto simp: try_body_def split: option.splits sum.splits bool.splits)

lemmas run_defs = shouldBuild_def shouldBuild_defs_def all_ignore_def try_body_def catch_body_def
  min_version_gate_def disabled_def sample_env_def sample_build_def

lemmas build_defs = doBuild_def render_filename_def js_replace_def nat_toString.simps
  digit_char_def Let_def suffix_to_prefix kind_name_def set_assetId_def persist_def
  load_tracker_def sample_clock_def sample_collaborators_def sample_world_def

section \<open>The version gate\<close>

text \<open>
  C5. On the stable channel, a build that passes the disabled test (active, and not
  restricted to the other channel) and has a valid, non-empty \<^verbatim>\<open>min_version\<close> gets no
  entry in the returned \<^verbatim>\<open>newBuilds\<close> when the coerced latest version is less than
  \<^verbatim>\<open>min_version\<close>: whichever way the run goes (tracker loaded or not, handler
  entered or not), the map it returns has no key for that build.
\<close>

theorem version_gated_build_has_no_entry:
  assumes dist: "distinct (map fst loadedBuilds)"
    and mem: "(buildName, b) \<in> set loadedBuilds"
    and act: "\<not> disabled Stable b"
    and mv: "min_version b = Some mv" "mv \<noteq> []" "semver_valid E mv"
    and lt: "semver_coerce E latestVersion = Some parsedLatest" "semver_lt E parsedLatest mv"
    and run: "shouldBuild E latestVersion Stable tracker loadedBuilds = Inr (ignore, newBuilds)"
  shows "buildName \<notin> fst ` set newBuilds"
proof -
  have gate: "min_version_gate E latestVersion Stable buildName b = Inr True"
    using mv lt by (rule gate_True)
  have keep_try: "map_of nb' buildName = map_of nb buildName"
    if "try_loop E latestVersion Stable tb loadedBuilds nb = (r, nb')" for tb nb r nb'
    using for_entries_lookup[OF that[unfolded try_loop_for_entries] dist mem]
      try_body_skip[OF act gate] by auto
  have keep_catch: "map_of nb' buildName = map_of nb buildName"
    if "catch_loop E latestVersion Stable loadedBuilds nb = Inr nb'" for nb nb'
    using for_entries_lookup[OF that[unfolded catch_loop_Inr] dist mem]
      catch_body_skip[of Stable b E latestVersion buildName] gate by auto
  from run have "shouldBuild_defs E latestVersion Stable tracker loadedBuilds = Inr newBuilds"
    by (simp add: shouldBuild_Inr)
  from shouldBuild_defs_cases[OF this] have "map_of newBuilds buildName = None"
    using keep_try keep_catch by (elim disjE exE conjE) fastforce+
  then show ?thesis by (simp add: map_of_eq_None_iff)
qed

text \<open>The theorem at a catalog of two builds: the gated one is absent, the other is
  created.\<close>

theorem version_gated_build_has_no_entry_witness:
  "shouldBuild sample_env ''2.1.1.1'' Stable None
     [(''a.json'', sample_build True None (Some ''2.1.2'')),
      (''b.json'', sample_build True None None)]
   = Inr (False, [(''b.json'', \<lparr>version = ''2.1.1.1'', md5 = ''md5-B'', assetId = None,
        build = sample_build True None None, action = Create\<rparr>)])
   \<and> ''a.json'' \<notin> fst ` set [(''b.json'', \<lparr>version = ''2.1.1.1'', md5 = ''md5-B'',
        assetId = None, build = sample_build True None None, action = Create\<rparr>)]"
proof -
  let ?cat = "[(''a.json'', sample_build True None (Some ''2.1.2'')),
      (''b.json'', sample_build True None None)]"
  have run: "shouldBuild sample_env ''2.1.1.1'' Stable None ?cat
    = Inr (False, [(''b.json'', \<lparr>version = ''2.1.1.1'', md5 = ''md5-B'', assetId = None,
        build = sample_build True None None, action = Create\<rparr>)])"
    by (simp add: run_defs)
  have "''a.json'' \<notin> fst ` set [(''b.json'', \<lparr>version = ''2.1.1.1'', md5 = ''md5-B'',
        assetId = None, build = sample_build True None None, action = Create\<rparr>)]"
  proof (rule version_gated_build_has_no_entry[OF _ _ _ _ _ _ _ _ run])
    show "distinct (map fst ?cat)" by simp
    show "(''a.json'', sample_build True None (Some ''2.1.2'')) \<in> set ?cat" by simp
    show "\<not> disabled Stable (sample_build True None (Some ''2.1.2''))"
      by (simp add: disabled_def sample_build_def)
    show "min_version (sample_build True None (Some ''2.1.2'')) = Some ''2.1.2''"
      by (simp add: sample_build_def)
    show "''2.1.2'' \<noteq> []" by simp
    show "semver_valid sample_env ''2.1.2''" by (simp add: sample_env_def)
    show "semver_coerce sample_env ''2.1.1.1'' = Some ''2.1.1''" by (simp add: sample_env_def)
    show "semver_lt sample_env ''2.1.1'' ''2.1.2''" by (simp add: sample_env_def)
  qed
  with run show ?thesis by simp
qed

section \<open>Which builds get an entry\<close>

text \<open>
  C3, as stated, at a version-gated build: the catalog holds \<^verbatim>\<open>a.json\<close>, the tracker
  even has a record for it, and the returned map is empty.
\<close>

theorem catalog_name_missing_counterexample:
  "shouldBuild sample_env ''2.1.1.1'' Stable
     (Some (map_of [(''a.json'', \<lparr>version = ''2.1.1.1'', md5 = ''md5-A'', assetId = Some 42\<rparr>)]))
     [(''a.json'', sample_build True None (Some ''2.1.2''))]
   = Inr (True, [])"
  by (simp add: run_defs)

text \<open>
  C3, amended. Whenever \<^verbatim>\<open>shouldBuild\<close> returns, the keys of \<^verbatim>\<open>newBuilds\<close> are
  distinct and are names of the catalog. A build that passes the disabled test has an
  entry exactly when the version gate lets it through, so a gated build has none. A
  disabled or channel-mismatched build has none when the tracker could not be loaded; when
  the tracker loaded and the loop inside \<^verbatim>\<open>try\<close> ran to its end, its entry is
  \<^verbatim>\<open>ignore\<close> with the latest version, the digest of the file as it is now and the
  \<^verbatim>\<open>assetId\<close> of its tracker record.
\<close>

theorem decision_map_keys:
  assumes dist: "distinct (map fst loadedBuilds)"
    and run: "shouldBuild E latestVersion k tracker loadedBuilds = Inr (ignore, newBuilds)"
  shows "distinct (map fst newBuilds)
       \<and> fst ` set newBuilds \<subseteq> fst ` set loadedBuilds
       \<and> (\<forall>(n, b) \<in> set loadedBuilds. \<not> disabled k b \<longrightarrow>
            (n \<in> fst ` set newBuilds \<longleftrightarrow> min_version_gate E latestVersion k n b = Inr False))
       \<and> (\<forall>(n, b) \<in> set loadedBuilds. disabled k b \<longrightarrow>
            (tracker = None \<longrightarrow> n \<notin> fst ` set newBuilds) \<and>
            (\<forall>trackedBuilds.
               tracker = Some trackedBuilds \<and>
               try_loop E latestVersion k trackedBuilds loadedBuilds [] = (None, newBuilds)
               \<longrightarrow> n \<in> fst ` set newBuilds \<and>
                 (\<exists>content t. readFile E n = Some content \<and> trackedBuilds n = Some t \<and>
                    map_of newBuilds n =
                      Some \<lparr>version = latestVersion, md5 = md5_hex E content,
                        assetId = assetId t, build = b, action = Ignore\<rparr>)))"
proof -
  from run have defs: "shouldBuild_defs E latestVersion k tracker loadedBuilds = Inr newBuilds"
    by (simp add: shouldBuild_Inr)
  have key: "n \<in> fst ` set nb \<longleftrightarrow> map_of nb n \<noteq> None" for n and nb :: BuildDefs
    by (simp add: map_of_eq_None_iff)
  have active: "n \<in> fst ` set newBuilds \<longleftrightarrow> min_version_gate E latestVersion k n b = Inr False"
    if mem: "(n, b) \<in> set loadedBuilds" and act: "\<not> disabled k b" for n b
  proof -
    have try_any: "map_of nb' n \<noteq> None \<longrightarrow> min_version_gate E latestVersion k n b = Inr False"
      if "try_loop E latestVersion k tb loadedBuilds [] = (r, nb')" for tb nb' r
      using for_entries_lookup[OF that[unfolded try_loop_for_entries] dist mem]
        try_body_active_Assign[OF act, of E latestVersion tb n]
      by auto
    have try_done: "min_version_gate E latestVersion k n b = Inr False \<longrightarrow> map_of nb' n \<noteq> None"
      if "try_loop E latestVersion k tb loadedBuilds [] = (None, nb')" for tb nb'
      using for_entries_lookup[OF that[unfolded try_loop_for_entries] dist mem]
        try_body_active_Continue[OF act, of E latestVersion tb n]
      by auto
    have catch_done: "map_of nb' n \<noteq> None \<longleftrightarrow>
        (map_of nb n \<noteq> None \<or> min_version_gate E latestVersion k n b = Inr False)"
      if "catch_loop E latestVersion k loadedBuilds nb = Inr nb'" for nb nb'
      using for_entries_lookup[OF that[unfolded catch_loop_Inr] dist mem]
        catch_body_Assign[of E latestVersion k n b]
        catch_body_Continue[of E latestVersion k n b] act
      by (cases "map_of nb n") auto
    from defs have "map_of newBuilds n \<noteq> None \<longleftrightarrow>
        min_version_gate E latestVersion k n b = Inr False"
    proof (cases rule: shouldBuild_defs_elim)
      case (tracked tb)
      with try_any[OF tracked(2)] try_done[OF tracked(2)] show ?thesis by blast
    next
      case bootstrap
      with catch_done[OF bootstrap(2)] show ?thesis by simp
    next
      case (handler tb e nb)
      with try_any[OF handler(2)] catch_done[OF handler(3)] show ?thesis by blast
    qed
    then show ?thesis by (simp only: key)
  qed
  have off_boot: "n \<notin> fst ` set newBuilds"
    if mem: "(n, b) \<in> set loadedBuilds" and dis: "disabled k b" and none: "tracker = None" for n b
  proof -
    from defs none have "catch_loop E latestVersion k loadedBuilds [] = Inr newBuilds"
      by (simp add: shouldBuild_defs_def)
    from for_entries_lookup[OF this[unfolded catch_loop_Inr] dist mem]
      catch_body_skip[of k b E latestVersion n] dis
    show ?thesis unfolding key by auto
  qed
  have on_try: "n \<in> fst ` set newBuilds \<and>
      (\<exists>content t. readFile E n = Some content \<and> tb n = Some t \<and>
         map_of newBuilds n =
           Some \<lparr>version = latestVersion, md5 = md5_hex E content,
             assetId = assetId t, build = b, action = Ignore\<rparr>)"
    if mem: "(n, b) \<in> set loadedBuilds" and dis: "disabled k b"
      and t: "try_loop E latestVersion k tb loadedBuilds [] = (None, newBuilds)" for n b tb
  proof -
    from for_entries_lookup[OF t[unfolded try_loop_for_entries] dist mem]
      try_body_disabled_not_Continue[OF dis, of E latestVersion tb n]
    obtain d where d: "try_body E latestVersion k tb n b = Assign d" "map_of newBuilds n = Some d"
      by auto
    from d(1) try_body_disabled[OF dis, of E latestVersion tb n d]
    obtain content t where "readFile E n = Some content" "tb n = Some t"
      "d = \<lparr>version = latestVersion, md5 = md5_hex E content,
             assetId = assetId t, build = b, action = Ignore\<rparr>" by auto
    with d(2) show ?thesis unfolding key by auto
  qed
  have c3: "\<forall>(n, b) \<in> set loadedBuilds. \<not> disabled k b \<longrightarrow>
            (n \<in> fst ` set newBuilds \<longleftrightarrow> min_version_gate E latestVersion k n b = Inr False)"
    using active by auto
  have c4: "\<forall>(n, b) \<in> set loadedBuilds. disabled k b \<longrightarrow>
            (tracker = None \<longrightarrow> n \<notin> fst ` set newBuilds) \<and>
            (\<forall>trackedBuilds.
               tracker = Some trackedBuilds \<and>
               try_loop E latestVersion k trackedBuilds loadedBuilds [] = (None, newBuilds)
               \<longrightarrow> n \<in> fst ` set newBuilds \<and>
                 (\<exists>content t. readFile E n = Some content \<and> trackedBuilds n = Some t \<and>
                    map_of newBuilds n =
                      Some \<lparr>version = latestVersion, md5 = md5_hex E content,
                        assetId = assetId t, build = b, action = Ignore\<rparr>))"
  proof (intro ballI)
    fix p
    assume p: "p \<in> set loadedBuilds"
    obtain n b where nb: "p = (n, b)" by (cases p)
    from p have mem: "(n, b) \<in> set loadedBuilds" by (simp add: nb)
    have "disabled k b \<longrightarrow>
            (tracker = None \<longrightarrow> n \<notin> fst ` set newBuilds) \<and>
            (\<forall>trackedBuilds.
               tracker = Some trackedBuilds \<and>
               try_loop E latestVersion k trackedBuilds loadedBuilds [] = (None, newBuilds)
               \<longrightarrow> n \<in> fst ` set newBuilds \<and>
                 (\<exists>content t. readFile E n = Some content \<and> trackedBuilds n = Some t \<and>
                    map_of newBuilds n =
                      Some \<lparr>version = latestVersion, md5 = md5_hex E content,
                        assetId = assetId t, build = b, action = Ignore\<rparr>))"
      using off_boot[OF mem] on_try[OF mem] by blast
    then show "case p of (n, b) \<Rightarrow> disabled k b \<longrightarrow>
            (tracker = None \<longrightarrow> n \<notin> fst ` set newBuilds) \<and>
            (\<forall>trackedBuilds.
               tracker = Some trackedBuilds \<and>
               try_loop E latestVersion k trackedBuilds loadedBuilds [] = (None, newBuilds)
               \<longrightarrow> n \<in> fst ` set newBuilds \<and>
                 (\<exists>content t. readFile E n = Some content \<and> trackedBuilds n = Some t \<and>
                    map_of newBuilds n =
                      Some \<lparr>version = latestVersion, md5 = md5_hex E content,
                        assetId = assetId t, build = b, action = Ignore\<rparr>))"
      by (simp only: nb prod.case)
  qed
  from shouldBuild_defs_distinct[OF defs] shouldBuild_defs_keys[OF defs] c3 c4
  show ?thesis by (intro conjI)
qed

text \<open>The theorem at a catalog with one build of each sort: created, gated, and restricted
  to the other channel.\<close>

theorem decision_map_keys_witness:
  "shouldBuild sample_env ''2.1.1.1'' Stable
     (Some (map_of [(''c.json'', \<lparr>version = ''2.1.1'', md5 = ''md5-C'', assetId = Some 7\<rparr>)]))
     [(''a.json'', sample_build True None None),
      (''b.json'', sample_build True None (Some ''2.1.2'')),
      (''c.json'', sample_build True (Some Nightly) None)]
   = Inr (False,
       [(''a.json'', \<lparr>version = ''2.1.1.1'', md5 = ''md5-A'', assetId = None,
           build = sample_build True None None, action = Create\<rparr>),
        (''c.json'', \<lparr>version = ''2.1.1.1'', md5 = ''md5-C'', assetId = Some 7,
           build = sample_build True (Some Nightly) None, action = Ignore\<rparr>)])
   \<and> distinct [''a.json'', ''c.json'']
   \<and> {''a.json'', ''c.json''} \<subseteq> {''a.json'', ''b.json'', ''c.json''}
   \<and> ''b.json'' \<notin> {''a.json'', ''c.json''}
   \<and> (\<exists>content t. readFile sample_env ''c.json'' = Some content
         \<and> map_of [(''c.json'', \<lparr>version = ''2.1.1'', md5 = ''md5-C'', assetId = Some 7\<rparr>)]
               ''c.json'' = Some t
         \<and> map_of
               [(''a.json'', \<lparr>version = ''2.1.1.1'', md5 = ''md5-A'', assetId = None,
                   build = sample_build True None None, action = Create\<rparr>),
                (''c.json'', \<lparr>version = ''2.1.1.1'', md5 = ''md5-C'', assetId = Some 7,
                   build = sample_build True (Some Nightly) None, action = Ignore\<rparr>)]
               ''c.json''
             = Some \<lparr>version = ''2.1.1.1'', md5 = md5_hex sample_env content,
                 assetId = assetId t, build = sample_build True (Some Nightly) None,
                 action = Ignore\<rparr>)"
proof -
  let ?tb = "map_of [(''c.json'', \<lparr>version = ''2.1.1'', md5 = ''md5-C'', assetId = Some (7::int)\<rparr>)]"
  let ?cat = "[(''a.json'', sample_build True None None),
      (''b.json'', sample_build True None (Some ''2.1.2'')),
      (''c.json'', sample_build True (Some Nightly) None)]"
  let ?out = "[(''a.json'', \<lparr>version = ''2.1.1.1'', md5 = ''md5-A'', assetId = None,
           build = sample_build True None None, action = Create\<rparr>),
        (''c.json'', \<lparr>version = ''2.1.1.1'', md5 = ''md5-C'', assetId = Some 7,
           build = sample_build True (Some Nightly) None, action = Ignore\<rparr>)]"
  have dist: "distinct (map fst ?cat)" by simp
  have run: "shouldBuild sample_env ''2.1.1.1'' Stable (Some ?tb) ?cat = Inr (False, ?out)"
    by (simp add: run_defs)
  note keys = decision_map_keys[OF dist run]
  from keys have "distinct (map fst ?out)" and "fst ` set ?out \<subseteq> fst ` set ?cat"
    by blast+
  moreover from keys have "\<forall>(n, b) \<in> set ?cat. \<not> disabled Stable b \<longrightarrow>
      (n \<in> fst ` set ?out \<longleftrightarrow> min_version_gate sample_env ''2.1.1.1'' Stable n b = Inr False)"
    by blast
  then have "''b.json'' \<notin> fst ` set ?out"
    by (simp add: disabled_def sample_build_def min_version_gate_def sample_env_def)
  moreover have "\<exists>content t. readFile sample_env ''c.json'' = Some content
         \<and> ?tb ''c.json'' = Some t
         \<and> map_of ?out ''c.json''
             = Some \<lparr>version = ''2.1.1.1'', md5 = md5_hex sample_env content,
                 assetId = assetId t, build = sample_build True (Some Nightly) None,
                 action = Ignore\<rparr>"
  proof -
    have loop: "try_loop sample_env ''2.1.1.1'' Stable ?tb ?cat [] = (None, ?out)"
      by (simp add: run_defs)
    have mem: "(''c.json'', sample_build True (Some Nightly) None) \<in> set ?cat" by simp
    have dis: "disabled Stable (sample_build True (Some Nightly) None)"
      by (simp add: disabled_def sample_build_def)
    from keys have "\<forall>(n, b) \<in> set ?cat. disabled Stable b \<longrightarrow>
        (\<forall>trackedBuilds. Some ?tb = Some trackedBuilds \<and>
           try_loop sample_env ''2.1.1.1'' Stable trackedBuilds ?cat [] = (None, ?out)
           \<longrightarrow> (\<exists>content t. readFile sample_env n = Some content \<and>
                 trackedBuilds n = Some t \<and>
                 map_of ?out n =
                   Some \<lparr>version = ''2.1.1.1'', md5 = md5_hex sample_env content,
                     assetId = assetId t, build = b, action = Ignore\<rparr>))"
      by blast
    with mem dis loop show ?thesis by blast
  qed
  ultimately show ?thesis using run by simp
qed

section \<open>An invalid min_version\<close>




section \<open>A version bump\<close>

text \<open>
  C6, as stated, at a disabled build: the tracked version \<^verbatim>\<open>2.1.1\<close> differs from the
  latest version \<^verbatim>\<open>2.1.2\<close>, and the decision is \<^verbatim>\<open>ignore\<close> with the tracked
  \<^verbatim>\<open>assetId\<close> carried over. The disabled test comes first in the loop.
\<close>

theorem version_bump_disabled_counterexample:
  "shouldBuild sample_env ''2.1.2'' Stable
     (Some (map_of [(''a.json'', \<lparr>version = ''2.1.1'', md5 = ''md5-A'', assetId = Some 42\<rparr>)]))
     [(''a.json'', sample_build False None None)]
   = Inr (True, [(''a.json'', \<lparr>version = ''2.1.2'', md5 = ''md5-A'', assetId = Some 42,
        build = sample_build False None None, action = Ignore\<rparr>)])"
  by (simp add: run_defs)

text \<open>
  C6, amended to the builds that reach the comparison. For a build that passes the
  disabled test and the version gate, with a tracker record whose version differs from
  \<^verbatim>\<open>latestVersion\<close>: whenever \<^verbatim>\<open>shouldBuild\<close> returns, the build's decision is
  \<^verbatim>\<open>create\<close> with the latest version, the digest of the file as it is now, and no
  \<^verbatim>\<open>assetId\<close>. Nothing is assumed about the tracked digest.
\<close>

theorem version_bump_creates:
  assumes dist: "distinct (map fst loadedBuilds)"
    and mem: "(buildName, b) \<in> set loadedBuilds"
    and act: "\<not> disabled k b"
    and gate: "min_version_gate E latestVersion k buildName b = Inr False"
    and rec: "trackedBuilds buildName = Some t"
    and bump: "version t \<noteq> latestVersion"
    and run: "shouldBuild E latestVersion k (Some trackedBuilds) loadedBuilds
                = Inr (ignore, newBuilds)"
  shows "\<exists>content. readFile E buildName = Some content \<and>
           map_of newBuilds buildName =
             Some \<lparr>version = latestVersion, md5 = md5_hex E content, assetId = None,
               build = b, action = Create\<rparr>"
proof -
  let ?P = "\<lambda>nb. \<exists>content. readFile E buildName = Some content \<and>
           map_of nb buildName =
             Some \<lparr>version = latestVersion, md5 = md5_hex E content, assetId = None,
               build = b, action = Create\<rparr>"
  have try_done: "?P nb'"
    if "try_loop E latestVersion k trackedBuilds loadedBuilds nb = (None, nb')" for nb nb'
    using for_entries_lookup[OF that[unfolded try_loop_for_entries] dist mem]
      try_body_active_Assign[OF act, of E latestVersion trackedBuilds buildName]
      try_body_active_Continue[OF act, of E latestVersion trackedBuilds buildName]
      gate rec bump
    by auto
  have catch_done: "?P nb'"
    if "catch_loop E latestVersion k loadedBuilds nb = Inr nb'" for nb nb'
    using for_entries_lookup[OF that[unfolded catch_loop_Inr] dist mem]
      catch_body_Assign[of E latestVersion k buildName b]
      catch_body_Continue[of E latestVersion k buildName b] act gate
    by auto
  from run have "shouldBuild_defs E latestVersion k (Some trackedBuilds) loadedBuilds
      = Inr newBuilds"
    by (simp add: shouldBuild_Inr)
  from shouldBuild_defs_cases[OF this] show ?thesis
    using try_done catch_done by (elim disjE exE conjE) auto
qed

text \<open>The theorem at a build whose file has the digest the tracker recorded.\<close>

theorem version_bump_creates_witness:
  "shouldBuild sample_env ''2.1.2'' Stable
     (Some (map_of [(''a.json'', \<lparr>version = ''2.1.1'', md5 = ''md5-A'', assetId = Some 42\<rparr>)]))
     [(''a.json'', sample_build True None (Some ''2.1.2''))]
   = Inr (False, [(''a.json'', \<lparr>version = ''2.1.2'', md5 = ''md5-A'', assetId = None,
        build = sample_build True None (Some ''2.1.2''), action = Create\<rparr>)])
   \<and> (\<exists>content. readFile sample_env ''a.json'' = Some content \<and>
         map_of [(''a.json'', \<lparr>version = ''2.1.2'', md5 = ''md5-A'', assetId = None,
                   build = sample_build True None (Some ''2.1.2''), action = Create\<rparr>)]
           ''a.json''
         = Some \<lparr>version = ''2.1.2'', md5 = md5_hex sample_env content, assetId = None,
             build = sample_build True None (Some ''2.1.2''), action = Create\<rparr>)"
proof -
  let ?b = "sample_build True None (Some ''2.1.2'')"
  let ?cat = "[(''a.json'', ?b)]"
  let ?t = "\<lparr>version = ''2.1.1'', md5 = ''md5-A'', assetId = Some (42::int)\<rparr>"
  let ?tb = "map_of [(''a.json'', ?t)]"
  let ?out = "[(''a.json'', \<lparr>version = ''2.1.2'', md5 = ''md5-A'', assetId = None,
        build = ?b, action = Create\<rparr>)]"
  have run: "shouldBuild sample_env ''2.1.2'' Stable (Some ?tb) ?cat = Inr (False, ?out)"
    by (simp add: run_defs)
  have "\<exists>content. readFile sample_env ''a.json'' = Some content \<and>
         map_of ?out ''a.json''
         = Some \<lparr>version = ''2.1.2'', md5 = md5_hex sample_env content, assetId = None,
             build = ?b, action = Create\<rparr>"
  proof (rule version_bump_creates[OF _ _ _ _ _ _ run])
    show "distinct (map fst ?cat)" by simp
    show "(''a.json'', ?b) \<in> set ?cat" by simp
    show "\<not> disabled Stable ?b" by (simp add: disabled_def sample_build_def)
    show "min_version_gate sample_env ''2.1.2'' Stable ''a.json'' ?b = Inr False"
      by (simp add: min_version_gate_def sample_env_def sample_build_def)
    show "?tb ''a.json'' = Some ?t" by simp
    show "version ?t \<noteq> ''2.1.2''" by simp
  qed
  with run show ?thesis by simp
qed

section \<open>An exception inside the loop\<close>

text \<open>
  C2, as stated, at two disabled builds, the second without a tracker record. The
  dereference throws at the second build; the decision already assigned to the first is
  still in the map that is returned, while the handler alone, started from an empty map,
  returns none.
\<close>

theorem handler_keeps_entries_counterexample:
  "try_loop sample_env ''2.1.2'' Stable
     (map_of [(''a.json'', \<lparr>version = ''2.1.2'', md5 = ''md5-A'', assetId = Some 42\<rparr>)])
     [(''a.json'', sample_build False None None), (''b.json'', sample_build False None None)] []
   = (Some (TypeError ''b.json''),
      [(''a.json'', \<lparr>version = ''2.1.2'', md5 = ''md5-A'', assetId = Some 42,
         build = sample_build False None None, action = Ignore\<rparr>)])
   \<and> shouldBuild sample_env ''2.1.2'' Stable
     (Some (map_of [(''a.json'', \<lparr>version = ''2.1.2'', md5 = ''md5-A'', assetId = Some 42\<rparr>)]))
     [(''a.json'', sample_build False None None), (''b.json'', sample_build False None None)]
   = Inr (True,
      [(''a.json'', \<lparr>version = ''2.1.2'', md5 = ''md5-A'', assetId = Some 42,
         build = sample_build False None None, action = Ignore\<rparr>)])
   \<and> shouldBuild sample_env ''2.1.2'' Stable None
     [(''a.json'', sample_build False None None), (''b.json'', sample_build False None None)]
   = Inr (True, [])"
  by (simp add: run_defs)

text \<open>
  C2, amended. When the tracker has loaded and an iteration of the loop inside \<^verbatim>\<open>try\<close>
  throws, the handler runs its loop over the whole catalog on the map as the first loop
  left it. Whenever that second loop returns, every build that passes the disabled test
  and the version gate has the decision \<^verbatim>\<open>create\<close> with no \<^verbatim>\<open>assetId\<close>, whatever
  its tracker record says.
\<close>

theorem handler_reclassifies:
  assumes dist: "distinct (map fst loadedBuilds)"
    and thrown: "try_loop E latestVersion k trackedBuilds loadedBuilds [] = (Some e, kept)"
    and run: "shouldBuild E latestVersion k (Some trackedBuilds) loadedBuilds
                = Inr (ignore, newBuilds)"
  shows "catch_loop E latestVersion k loadedBuilds kept = Inr newBuilds
       \<and> (\<forall>(n, b) \<in> set loadedBuilds.
            \<not> disabled k b \<and> min_version_gate E latestVersion k n b = Inr False \<longrightarrow>
            (\<exists>content. readFile E n = Some content \<and>
               map_of newBuilds n =
                 Some \<lparr>version = latestVersion, md5 = md5_hex E content, assetId = None,
                   build = b, action = Create\<rparr>))"
proof -
  from run thrown have c: "catch_loop E latestVersion k loadedBuilds kept = Inr newBuilds"
    by (simp add: shouldBuild_Inr shouldBuild_defs_def)
  have "\<exists>content. readFile E n = Some content \<and>
               map_of newBuilds n =
                 Some \<lparr>version = latestVersion, md5 = md5_hex E content, assetId = None,
                   build = b, action = Create\<rparr>"
    if mem: "(n, b) \<in> set loadedBuilds" and act: "\<not> disabled k b"
      and gate: "min_version_gate E latestVersion k n b = Inr False" for n b
    using for_entries_lookup[OF c[unfolded catch_loop_Inr] dist mem]
      catch_body_Assign[of E latestVersion k n b]
      catch_body_Continue[of E latestVersion k n b] act gate
    by auto
  with c show ?thesis by auto
qed

text \<open>The theorem at a run where the first build is up to date in the tracker and the
  second, disabled, has no record.\<close>

theorem handler_reclassifies_witness:
  "try_loop sample_env ''2.1.2'' Stable
     (map_of [(''a.json'', \<lparr>version = ''2.1.2'', md5 = ''md5-A'', assetId = Some 42\<rparr>)])
     [(''a.json'', sample_build True None None), (''b.json'', sample_build False None None)] []
   = (Some (TypeError ''b.json''),
      [(''a.json'', \<lparr>version = ''2.1.2'', md5 = ''md5-A'', assetId = Some 42,
         build = sample_build True None None, action = Ignore\<rparr>)])
   \<and> shouldBuild sample_env ''2.1.2'' Stable
     (Some (map_of [(''a.json'', \<lparr>version = ''2.1.2'', md5 = ''md5-A'', assetId = Some 42\<rparr>)]))
     [(''a.json'', sample_build True None None), (''b.json'', sample_build False None None)]
   = Inr (False,
      [(''a.json'', \<lparr>version = ''2.1.2'', md5 = ''md5-A'', assetId = None,
         build = sample_build True None None, action = Create\<rparr>)])
   \<and> (\<exists>content. readFile sample_env ''a.json'' = Some content \<and>
         map_of [(''a.json'', \<lparr>version = ''2.1.2'', md5 = ''md5-A'', assetId = None,
                   build = sample_build True None None, action = Create\<rparr>)] ''a.json''
         = Some \<lparr>version = ''2.1.2'', md5 = md5_hex sample_env content, assetId = None,
                   build = sample_build True None None, action = Create\<rparr>)"
proof -
  let ?tb = "map_of [(''a.json'', \<lparr>version = ''2.1.2'', md5 = ''md5-A'', assetId = Some (42::int)\<rparr>)]"
  let ?a = "sample_build True None None"
  let ?cat = "[(''a.json'', ?a), (''b.json'', sample_build False None None)]"
  let ?kept = "[(''a.json'', \<lparr>version = ''2.1.2'', md5 = ''md5-A'', assetId = Some 42,
         build = ?a, action = Ignore\<rparr>)]"
  let ?out = "[(''a.json'', \<lparr>version = ''2.1.2'', md5 = ''md5-A'', assetId = None,
         build = ?a, action = Create\<rparr>)]"
  have dist: "distinct (map fst ?cat)" by simp
  have thrown: "try_loop sample_env ''2.1.2'' Stable ?tb ?cat [] = (Some (TypeError ''b.json''), ?kept)"
    by (simp add: run_defs)
  have run: "shouldBuild sample_env ''2.1.2'' Stable (Some ?tb) ?cat = Inr (False, ?out)"
    by (simp add: run_defs)
  have act: "\<not> disabled Stable ?a \<and> min_version_gate sample_env ''2.1.2'' Stable ''a.json'' ?a = Inr False"
    by (simp add: disabled_def sample_build_def min_version_gate_def)
  from handler_reclassifies[OF dist thrown run]
  have "\<forall>(n, b) \<in> set ?cat.
            \<not> disabled Stable b \<and> min_version_gate sample_env ''2.1.2'' Stable n b = Inr False \<longrightarrow>
            (\<exists>content. readFile sample_env n = Some content \<and>
               map_of ?out n =
                 Some \<lparr>version = ''2.1.2'', md5 = md5_hex sample_env content, assetId = None,
                   build = b, action = Create\<rparr>)"
    by blast
  with act have "\<exists>content. readFile sample_env ''a.json'' = Some content \<and>
               map_of ?out ''a.json'' =
                 Some \<lparr>version = ''2.1.2'', md5 = md5_hex sample_env content, assetId = None,
                   build = ?a, action = Create\<rparr>"
    by auto
  with thrown run show ?thesis by blast
qed

section \<open>A second run on the tracker the first one wrote\<close>

text \<open>
  The first run has a loaded tracker and its loop ran to the end; the second run reads a
  tracker that holds, for every decision of the first, its version and digest. Then no
  iteration of the second loop throws, and every entry it assigns is \<^verbatim>\<open>ignore\<close>. A
  build may have been enabled in between.
\<close>

lemma set_update_subset: "set (AList.update k v al) \<subseteq> insert (k, v) (set al)"
  by (induction al) auto

lemma for_entries_all:
  "for_entries body bs nb = (r, nb') \<Longrightarrow> \<forall>(n, d) \<in> set nb. P d \<Longrightarrow>
   \<forall>(n, b) \<in> set bs. \<forall>d. body n b = Assign d \<longrightarrow> P d \<Longrightarrow>
   \<forall>(n, d) \<in> set nb'. P d"
proof (induction bs arbitrary: nb)
  case Nil
  then show ?case by simp
next
  case (Cons p bs)
  obtain m c where p: "p = (m, c)" by (cases p)
  from Cons.prems(3) have rest: "\<forall>(n, b) \<in> set bs. \<forall>d. body n b = Assign d \<longrightarrow> P d"
    by simp
  show ?case
  proof (cases "body m c")
    case (Throw e)
    with Cons.prems show ?thesis by (auto simp: p)
  next
    case Continue
    with Cons.prems(1) have "for_entries body bs nb = (r, nb')" by (simp add: p)
    from Cons.IH[OF this Cons.prems(2) rest] show ?thesis .
  next
    case (Assign d')
    with Cons.prems(1) have f: "for_entries body bs (AList.update m d' nb) = (r, nb')"
      by (simp add: p)
    have "P d'" using Cons.prems(3) Assign by (simp add: p)
    moreover have "set (AList.update m d' nb) \<subseteq> insert (m, d') (set nb)"
      by (rule set_update_subset)
    ultimately have "\<forall>(n, d) \<in> set (AList.update m d' nb). P d"
      using Cons.prems(2) by fastforce
    from Cons.IH[OF f this rest] show ?thesis .
  qed
qed

lemma try_body_Throw_iff:
  "(\<exists>e. try_body E lv k tb n b = Throw e) \<longleftrightarrow>
     readFile E n = None \<or> (disabled k b \<and> tb n = None)
     \<or> (\<not> disabled k b \<and> (\<exists>e. min_version_gate E lv k n b = Inl e))"
  by (auto simp: try_body_def split: option.splits sum.splits bool.splits)

lemma try_body_not_Throw:
  assumes "\<And>e. try_body E lv k tb n b \<noteq> Throw e"
  shows "\<exists>content. readFile E n = Some content \<and>
           (if disabled k b then tb n \<noteq> None
            else \<exists>skip. min_version_gate E lv k n b = Inr skip)"
proof -
  from assms have "\<not> (\<exists>e. try_body E lv k tb n b = Throw e)" by blast
  then have n: "readFile E n \<noteq> None" "disabled k b \<longrightarrow> tb n \<noteq> None"
    "\<not> disabled k b \<longrightarrow> (\<forall>e. min_version_gate E lv k n b \<noteq> Inl e)"
    unfolding try_body_Throw_iff by auto
  then show ?thesis by (cases "min_version_gate E lv k n b") auto
qed

lemma try_body_Assign_fields:
  "try_body E lv k tb n b = Assign d \<Longrightarrow>
   \<exists>content. readFile E n = Some content \<and> version d = lv \<and> md5 d = md5_hex E content
     \<and> build d = b"
  by (auto simp: try_body_def split: option.splits sum.splits bool.splits if_splits)

lemma try_body_up_to_date:
  assumes "readFile E n = Some content" "\<not> disabled k b"
    "min_version_gate E lv k n b = Inr False"
    "tb n = Some \<lparr>version = lv, md5 = md5_hex E content, assetId = aid\<rparr>"
  shows "try_body E lv k tb n b =
    Assign \<lparr>version = lv, md5 = md5_hex E content, assetId = aid, build = b, action = Ignore\<rparr>"
  using assms by (simp add: try_body_def)

lemma try_body_disabled_tracked:
  assumes "readFile E n = Some content" "disabled k b" "tb n = Some t"
  shows "try_body E lv k tb n b =
    Assign \<lparr>version = lv, md5 = md5_hex E content, assetId = assetId t, build = b,
      action = Ignore\<rparr>"
  using assms by (simp add: try_body_def)

lemma second_run_body:
  assumes dist: "distinct (map fst builds)"
    and t1: "try_loop E lv k tb1 builds [] = (None, decs1)"
    and tb2: "\<And>m d. map_of decs1 m = Some d \<Longrightarrow>
               \<exists>aid. tb2 m = Some \<lparr>version = version d, md5 = md5 d, assetId = aid\<rparr>"
    and mem: "(m, b1) \<in> set builds"
    and b: "b = b1 \<or> disabled k b1 \<and> \<not> disabled k b \<and> min_version_gate E lv k m b = Inr False"
  shows "try_body E lv k tb2 m b = Continue
       \<or> (\<exists>d. try_body E lv k tb2 m b = Assign d \<and> action d = Ignore)"
proof -
  note look = for_entries_lookup[OF t1[unfolded try_loop_for_entries] dist mem]
  have nothrow: "\<And>e. try_body E lv k tb1 m b1 \<noteq> Throw e" using look by auto
  from try_body_not_Throw[OF this] obtain content where
    rd: "readFile E m = Some content"
    and ok: "if disabled k b1 then tb1 m \<noteq> None
             else \<exists>skip. min_version_gate E lv k m b1 = Inr skip" by blast
  have rec: "\<exists>aid. tb2 m = Some \<lparr>version = lv, md5 = md5_hex E content, assetId = aid\<rparr>"
    if "try_body E lv k tb1 m b1 = Assign d" for d
  proof -
    from look that have "map_of decs1 m = Some d" by auto
    from tb2[OF this] try_body_Assign_fields[OF that] rd show ?thesis by auto
  qed
  show ?thesis
  proof (cases "disabled k b1")
    case True
    with ok obtain t where t: "tb1 m = Some t" by auto
    have "try_body E lv k tb1 m b1 =
      Assign \<lparr>version = lv, md5 = md5_hex E content, assetId = assetId t, build = b1,
        action = Ignore\<rparr>"
      using rd True t by (simp add: try_body_def)
    from rec[OF this] obtain aid where
      r2: "tb2 m = Some \<lparr>version = lv, md5 = md5_hex E content, assetId = aid\<rparr>" by blast
    from b show ?thesis
    proof
      assume "b = b1"
      with rd True r2 show ?thesis by (simp add: try_body_def)
    next
      assume "disabled k b1 \<and> \<not> disabled k b \<and> min_version_gate E lv k m b = Inr False"
      with rd r2 show ?thesis by (simp add: try_body_def)
    qed
  next
    case False
    with b have bb: "b = b1" by auto
    from False ok obtain skip where g: "min_version_gate E lv k m b1 = Inr skip" by auto
    show ?thesis
    proof (cases skip)
      case True
      with g \<open>\<not> disabled k b1\<close> rd show ?thesis by (simp add: try_body_def bb)
    next
      case False
      with g \<open>\<not> disabled k b1\<close> rd have "\<exists>d. try_body E lv k tb1 m b1 = Assign d"
        by (cases "tb1 m") (simp_all add: try_body_def)
      then obtain d where a: "try_body E lv k tb1 m b1 = Assign d" ..
      from rec[OF a] obtain aid where
        r2: "tb2 m = Some \<lparr>version = lv, md5 = md5_hex E content, assetId = aid\<rparr>" by blast
      with g False \<open>\<not> disabled k b1\<close> rd show ?thesis by (simp add: try_body_def bb)
    qed
  qed
qed

section \<open>What doBuild writes\<close>

text \<open>
  When \<^verbatim>\<open>doBuild\<close> publishes, the tracker file holds one entry for every decision,
  with its version and digest; only the \<^verbatim>\<open>assetId\<close> of an uploaded build is new, and
  an \<^verbatim>\<open>ignore\<close> decision is stored as it is.
\<close>

lemma map_of_set_assetId:
  "map_of (set_assetId m aid defs) n =
     (if n = m then map_option (\<lambda>d. d\<lparr>assetId := Some aid\<rparr>) (map_of defs n)
      else map_of defs n)"
  by (induction defs) (auto simp: set_assetId_def)

lemma upload_assets_lookup:
  "upload_assets X url as defs w = (r, defs', w') \<Longrightarrow> map_of defs n = Some d \<Longrightarrow>
   \<exists>aid. map_of defs' n = Some (d\<lparr>assetId := aid\<rparr>)"
proof (induction as arbitrary: defs w d)
  case Nil
  then have "map_of defs' n = Some (d\<lparr>assetId := assetId d\<rparr>)" by simp
  then show ?case by blast
next
  case (Cons a as)
  show ?case
  proof (cases "uploadAsset X url a")
    case (Inl e)
    with Cons.prems have "map_of defs' n = Some (d\<lparr>assetId := assetId d\<rparr>)" by simp
    then show ?thesis by blast
  next
    case (Inr aid)
    let ?defs = "set_assetId (asset_buildName a) aid defs"
    from Inr Cons.prems(1) have u: "upload_assets X url as ?defs
        (w\<lparr>uploads := uploads w @ [(url, a)]\<rparr>) = (r, defs', w')" by simp
    have "\<exists>aid0. map_of ?defs n = Some (d\<lparr>assetId := aid0\<rparr>)"
    proof (cases "n = asset_buildName a")
      case True
      with Cons.prems(2) have "map_of ?defs n = Some (d\<lparr>assetId := Some aid\<rparr>)"
        by (simp add: map_of_set_assetId)
      then show ?thesis by blast
    next
      case False
      with Cons.prems(2) have "map_of ?defs n = Some (d\<lparr>assetId := assetId d\<rparr>)"
        by (simp add: map_of_set_assetId)
      then show ?thesis by blast
    qed
    then obtain aid0 where "map_of ?defs n = Some (d\<lparr>assetId := aid0\<rparr>)" ..
    from Cons.IH[OF u this] show ?thesis by auto
  qed
qed

lemma upload_assets_untouched:
  "upload_assets X url as defs w = (r, defs', w') \<Longrightarrow> n \<notin> asset_buildName ` set as \<Longrightarrow>
   map_of defs' n = map_of defs n"
proof (induction as arbitrary: defs w)
  case Nil
  then show ?case by simp
next
  case (Cons a as)
  show ?case
  proof (cases "uploadAsset X url a")
    case (Inl e)
    with Cons.prems show ?thesis by simp
  next
    case (Inr aid)
    with Cons.prems(1) have u: "upload_assets X url as (set_assetId (asset_buildName a) aid defs)
        (w\<lparr>uploads := uploads w @ [(url, a)]\<rparr>) = (r, defs', w')" by simp
    from Cons.IH[OF u] Cons.prems(2) show ?thesis by (simp add: map_of_set_assetId)
  qed
qed

lemma upload_assets_tracker:
  "upload_assets X url as defs w = (r, defs', w') \<Longrightarrow> tracker_file w' = tracker_file w"
  by (induction as arbitrary: defs w) (auto split: sum.splits)

lemma map_of_persist:
  "map_of (persist defs) n =
     map_option (\<lambda>d. \<lparr>version = version d, md5 = md5 d, assetId = assetId d\<rparr>) (map_of defs n)"
  by (induction defs) (auto simp: persist_def)

lemma collect_assets_names:
  "collect_assets X C lv k defs as = Inr as' \<Longrightarrow>
   asset_buildName ` set as' \<subseteq>
     asset_buildName ` set as \<union> {n. \<exists>d. (n, d) \<in> set defs \<and> action d \<noteq> Ignore}"
proof (induction defs arbitrary: as)
  case Nil
  then show ?case by auto
next
  case (Cons p defs)
  obtain n d where p: "p = (n, d)" by (cases p)
  show ?case
  proof (cases "action d = Ignore")
    case True
    with Cons.prems have "collect_assets X C lv k defs as = Inr as'" by (simp add: p)
    from Cons.IH[OF this] show ?thesis by auto
  next
    case False
    show ?thesis
    proof (cases "processBuild X n (build d) k lv")
      case (Inl e)
      with False Cons.prems show ?thesis by (simp add: p)
    next
      case (Inr path)
      show ?thesis
      proof (cases "path = None \<or> path = Some []")
        case True
        with False Inr Cons.prems have "collect_assets X C lv k defs as = Inr as'"
          by (auto simp: p)
        from Cons.IH[OF this] show ?thesis by auto
      next
        case False
        then obtain q where q: "path = Some q" "q \<noteq> []" by (cases path) auto
        with \<open>action d \<noteq> Ignore\<close> Inr Cons.prems
        have "\<exists>a. asset_buildName a = n \<and>
          collect_assets X C lv k defs (as @ [a]) = Inr as'"
          by (auto simp: p intro!: exI)
        then obtain a where a: "asset_buildName a = n"
          "collect_assets X C lv k defs (as @ [a]) = Inr as'" by blast
        from Cons.IH[OF a(2)] a(1) \<open>action d \<noteq> Ignore\<close> show ?thesis by (auto simp: p)
      qed
    qed
  qed
qed

lemma doBuild_persisted:
  assumes dist: "distinct (map fst defs)"
    and pub: "doBuild X C False lv k defs w = (None, w')"
    and some: "collect_assets X C lv k defs [] \<noteq> Inr []"
  shows "\<exists>defs'. tracker_file w' k = Some (persist defs')
      \<and> (\<forall>n d. map_of defs n = Some d \<longrightarrow> (\<exists>aid. map_of defs' n = Some (d\<lparr>assetId := aid\<rparr>)))
      \<and> (\<forall>n d. map_of defs n = Some d \<and> action d = Ignore \<longrightarrow> map_of defs' n = Some d)"
proof -
  from pub some obtain as where as: "collect_assets X C lv k defs [] = Inr as" "as \<noteq> []"
    by (cases "collect_assets X C lv k defs []") (auto simp: doBuild_def)
  with pub obtain url where url: "createRelease X lv k (currentDateTime C) = Inr url"
    by (cases "createRelease X lv k (currentDateTime C)") (auto simp: doBuild_def)
  obtain r defs' w1 where up: "upload_assets X url as defs
      (w\<lparr>releases := releases w @ [(lv, k, currentDateTime C)]\<rparr>) = (r, defs', w1)"
    by (cases "upload_assets X url as defs
      (w\<lparr>releases := releases w @ [(lv, k, currentDateTime C)]\<rparr>)") auto
  with pub as url have r: "r = None"
    and w': "w' = w1\<lparr>tracker_file := (tracker_file w1)(k := Some (persist defs'))\<rparr>"
    by (auto simp: doBuild_def split: option.splits)
  have "map_of defs' n = Some d" if "map_of defs n = Some d" "action d = Ignore" for n d
  proof -
    have "n \<notin> asset_buildName ` set as"
    proof
      assume "n \<in> asset_buildName ` set as"
      with collect_assets_names[OF as(1)] obtain d' where
        "(n, d') \<in> set defs" "action d' \<noteq> Ignore" by auto
      with dist have "map_of defs n = Some d'" by simp
      with that \<open>action d' \<noteq> Ignore\<close> show False by simp
    qed
    from upload_assets_untouched[OF up this] that show ?thesis by simp
  qed
  moreover have "\<exists>aid. map_of defs' n = Some (d\<lparr>assetId := aid\<rparr>)"
    if "map_of defs n = Some d" for n d
    using upload_assets_lookup[OF up that] .
  moreover have "tracker_file w' k = Some (persist defs')" by (simp add: w')
  ultimately show ?thesis by blast
qed

lemma second_run_all_ignore:
  assumes dist: "distinct (map fst builds)"
    and t1: "try_loop E lv k tb1 builds [] = (None, decs1)"
    and tb2: "\<And>m d. map_of decs1 m = Some d \<Longrightarrow>
               \<exists>aid. tb2 m = Some \<lparr>version = version d, md5 = md5 d, assetId = aid\<rparr>"
    and origin: "\<And>m b. (m, b) \<in> set builds2 \<Longrightarrow> \<exists>b0. (m, b0) \<in> set builds \<and>
      (b = b0 \<or> disabled k b0 \<and> \<not> disabled k b \<and> min_version_gate E lv k m b = Inr False)"
  shows "\<exists>decs2. try_loop E lv k tb2 builds2 [] = (None, decs2) \<and> all_ignore decs2"
proof -
  have body2: "try_body E lv k tb2 m b = Continue
       \<or> (\<exists>d. try_body E lv k tb2 m b = Assign d \<and> action d = Ignore)"
    if "(m, b) \<in> set builds2" for m b
  proof -
    from origin[OF that] obtain b0 where "(m, b0) \<in> set builds"
      "b = b0 \<or> disabled k b0 \<and> \<not> disabled k b \<and> min_version_gate E lv k m b = Inr False"
      by blast
    from second_run_body[OF dist t1 tb2 this] show ?thesis by simp
  qed
  obtain r decs2 where run2: "for_entries (try_body E lv k tb2) builds2 [] = (r, decs2)"
    by (cases "for_entries (try_body E lv k tb2) builds2 []")
  have "fst (for_entries (try_body E lv k tb2) builds2 []) = None"
  proof (rule for_entries_completes)
    fix n b e
    assume "(n, b) \<in> set builds2"
    from body2[OF this] show "try_body E lv k tb2 n b \<noteq> Throw e" by auto
  qed
  with run2 have r: "r = None" by simp
  have "\<forall>(n, d) \<in> set decs2. action d = Ignore"
  proof (rule for_entries_all[OF run2])
    show "\<forall>(n, d) \<in> set []. action d = Ignore" by simp
    show "\<forall>(n, b) \<in> set builds2. \<forall>d. try_body E lv k tb2 n b = Assign d \<longrightarrow> action d = Ignore"
      using body2 by fastforce
  qed
  then have "all_ignore decs2" by (auto simp: all_ignore_def list_all_iff)
  with run2 r show ?thesis by (auto simp: try_loop_for_entries)
qed

lemma persisted_tracker:
  assumes run1: "try_loop E lv k tb1 builds [] = (None, decs1)"
    and pub: "doBuild X C False lv k decs1 w = (None, w')"
    and some: "collect_assets X C lv k decs1 [] \<noteq> Inr []"
  shows "\<exists>tb2. load_tracker w' k = Some tb2
      \<and> (\<forall>m d. map_of decs1 m = Some d \<longrightarrow>
            (\<exists>aid. tb2 m = Some \<lparr>version = version d, md5 = md5 d, assetId = aid\<rparr>))
      \<and> (\<forall>m d. map_of decs1 m = Some d \<and> action d = Ignore \<longrightarrow>
            tb2 m = Some \<lparr>version = version d, md5 = md5 d, assetId = assetId d\<rparr>)"
proof -
  have dist1: "distinct (map fst decs1)"
    using for_entries_distinct[OF run1[unfolded try_loop_for_entries]] by simp
  from doBuild_persisted[OF dist1 pub some] obtain defs' where
    written: "tracker_file w' k = Some (persist defs')"
    and any: "\<And>n d. map_of decs1 n = Some d \<Longrightarrow> \<exists>aid. map_of defs' n = Some (d\<lparr>assetId := aid\<rparr>)"
    and ign: "\<And>n d. map_of decs1 n = Some d \<Longrightarrow> action d = Ignore \<Longrightarrow> map_of defs' n = Some d"
    by blast
  have "load_tracker w' k = Some (map_of (persist defs'))"
    by (simp add: load_tracker_def written)
  moreover have "\<exists>aid. map_of (persist defs') m
        = Some \<lparr>version = version d, md5 = md5 d, assetId = aid\<rparr>"
    if "map_of decs1 m = Some d" for m d
    using any[OF that] by (auto simp: map_of_persist)
  moreover have "map_of (persist defs') m
        = Some \<lparr>version = version d, md5 = md5 d, assetId = assetId d\<rparr>"
    if "map_of decs1 m = Some d" "action d = Ignore" for m d
    using ign[OF that] by (simp add: map_of_persist)
  ultimately show ?thesis by blast
qed

text \<open>
  When the loop inside \<^verbatim>\<open>try\<close> ran to its end and \<^verbatim>\<open>doBuild\<close> wrote the tracker, a
  second run on the same catalog, files and latest version classifies every build
  \<^verbatim>\<open>ignore\<close>.
\<close>

lemma idempotent_after_complete_loop:
  assumes dist: "distinct (map fst builds)"
    and run1: "try_loop E lv k tb1 builds [] = (None, decs1)"
    and pub: "doBuild X C False lv k decs1 w = (None, w')"
    and some: "collect_assets X C lv k decs1 [] \<noteq> Inr []"
  shows "\<exists>decs2. shouldBuild E lv k (load_tracker w' k) builds = Inr (True, decs2)"
proof -
  from persisted_tracker[OF run1 pub some] obtain tb2 where
    load: "load_tracker w' k = Some tb2"
    and tb2: "\<And>m d. map_of decs1 m = Some d \<Longrightarrow>
            \<exists>aid. tb2 m = Some \<lparr>version = version d, md5 = md5 d, assetId = aid\<rparr>"
    by blast
  have "\<exists>decs2. try_loop E lv k tb2 builds [] = (None, decs2) \<and> all_ignore decs2"
    by (rule second_run_all_ignore[OF dist run1 tb2]) auto
  then show ?thesis by (auto simp: load shouldBuild_def shouldBuild_defs_def)
qed

section \<open>Disabling a build across a version change\<close>

text \<open>
  C10, as stated, at two runs on the version \<^verbatim>\<open>2.1.1.1\<close> after a tracker at
  \<^verbatim>\<open>2.1.1\<close>. In the first, \<^verbatim>\<open>a.json\<close> is disabled and gets an \<^verbatim>\<open>ignore\<close>
  decision at the new version, \<^verbatim>\<open>b.json\<close> is built, and \<^verbatim>\<open>doBuild\<close> writes the
  tracker. In the second, \<^verbatim>\<open>a.json\<close> is enabled again with its file unchanged; its
  \<^verbatim>\<open>min_version\<close> is above the latest version, so the version gate skips it and it has
  no decision at all.

  The second half is the same at the version \<^verbatim>\<open>2.1.2\<close> with a third build,
  \<^verbatim>\<open>b.json\<close>, that is disabled and has no tracker record. The first run throws at
  \<^verbatim>\<open>b.json\<close>, and the handler keeps the \<^verbatim>\<open>ignore\<close> decision of \<^verbatim>\<open>a.json\<close>, which
  is written to the tracker. The second run, with \<^verbatim>\<open>a.json\<close> enabled, throws at
  \<^verbatim>\<open>b.json\<close> again, and the handler decides to create \<^verbatim>\<open>a.json\<close>.
\<close>

theorem reenabled_build_not_ignored_counterexample:
  "shouldBuild sample_env ''2.1.1.1'' Stable
     (Some (map_of [(''a.json'', \<lparr>version = ''2.1.1'', md5 = ''md5-A'', assetId = Some 42\<rparr>),
                    (''b.json'', \<lparr>version = ''2.1.1'', md5 = ''md5-B'', assetId = Some 43\<rparr>)]))
     [(''a.json'', sample_build False None (Some ''2.1.2'')),
      (''b.json'', sample_build True None None)]
   = Inr (False,
       [(''a.json'', \<lparr>version = ''2.1.1.1'', md5 = ''md5-A'', assetId = Some 42,
          build = sample_build False None (Some ''2.1.2''), action = Ignore\<rparr>),
        (''b.json'', \<lparr>version = ''2.1.1.1'', md5 = ''md5-B'', assetId = None,
          build = sample_build True None None, action = Create\<rparr>)])
   \<and> doBuild sample_collaborators sample_clock False ''2.1.1.1'' Stable
       [(''a.json'', \<lparr>version = ''2.1.1.1'', md5 = ''md5-A'', assetId = Some 42,
          build = sample_build False None (Some ''2.1.2''), action = Ignore\<rparr>),
        (''b.json'', \<lparr>version = ''2.1.1.1'', md5 = ''md5-B'', assetId = None,
          build = sample_build True None None, action = Create\<rparr>)] sample_world
     = (None,
        \<lparr>releases = [(''2.1.1.1'', Stable, ''202401311200'')],
         uploads = [(''upload-url'',
           \<lparr>asset_buildName = ''b.json'', asset_filename = ''fw-2.1.1.1.bin'',
            asset_buildPath = ''dist/b.json'', asset_action = Create, asset_assetId = None\<rparr>)],
         tracker_file = (\<lambda>k. None)(Stable :=
           Some [(''a.json'', \<lparr>version = ''2.1.1.1'', md5 = ''md5-A'', assetId = Some 42\<rparr>),
                 (''b.json'', \<lparr>version = ''2.1.1.1'', md5 = ''md5-B'', assetId = Some 100\<rparr>)])\<rparr>)
   \<and> shouldBuild sample_env ''2.1.1.1'' Stable
       (load_tracker
         \<lparr>releases = [(''2.1.1.1'', Stable, ''202401311200'')],
          uploads = [(''upload-url'',
           \<lparr>asset_buildName = ''b.json'', asset_filename = ''fw-2.1.1.1.bin'',
            asset_buildPath = ''dist/b.json'', asset_action = Create, asset_assetId = None\<rparr>)],
          tracker_file = (\<lambda>k. None)(Stable :=
           Some [(''a.json'', \<lparr>version = ''2.1.1.1'', md5 = ''md5-A'', assetId = Some 42\<rparr>),
                 (''b.json'', \<lparr>version = ''2.1.1.1'', md5 = ''md5-B'', assetId = Some 100\<rparr>)])\<rparr>
         Stable)
       [(''a.json'', sample_build True None (Some ''2.1.2'')),
        (''b.json'', sample_build True None None)]
     = Inr (True,
       [(''b.json'', \<lparr>version = ''2.1.1.1'', md5 = ''md5-B'', assetId = Some 100,
          build = sample_build True None None, action = Ignore\<rparr>)])
   \<and> shouldBuild sample_env ''2.1.2'' Stable
     (Some (map_of [(''a.json'', \<lparr>version = ''2.1.1'', md5 = ''md5-A'', assetId = Some 42\<rparr>),
                    (''c.json'', \<lparr>version = ''2.1.1'', md5 = ''md5-C'', assetId = Some 44\<rparr>)]))
     [(''a.json'', sample_build False None None),
      (''c.json'', sample_build True None None),
      (''b.json'', sample_build False None None)]
   = Inr (False,
       [(''a.json'', \<lparr>version = ''2.1.2'', md5 = ''md5-A'', assetId = Some 42,
          build = sample_build False None None, action = Ignore\<rparr>),
        (''c.json'', \<lparr>version = ''2.1.2'', md5 = ''md5-C'', assetId = None,
          build = sample_build True None None, action = Create\<rparr>)])
   \<and> doBuild sample_collaborators sample_clock False ''2.1.2'' Stable
       [(''a.json'', \<lparr>version = ''2.1.2'', md5 = ''md5-A'', assetId = Some 42,
          build = sample_build False None None, action = Ignore\<rparr>),
        (''c.json'', \<lparr>version = ''2.1.2'', md5 = ''md5-C'', assetId = None,
          build = sample_build True None None, action = Create\<rparr>)] sample_world
     = (None,
        \<lparr>releases = [(''2.1.2'', Stable, ''202401311200'')],
         uploads = [(''upload-url'',
           \<lparr>asset_buildName = ''c.json'', asset_filename = ''fw-2.1.2.bin'',
            asset_buildPath = ''dist/c.json'', asset_action = Create, asset_assetId = None\<rparr>)],
         tracker_file = (\<lambda>k. None)(Stable :=
           Some [(''a.json'', \<lparr>version = ''2.1.2'', md5 = ''md5-A'', assetId = Some 42\<rparr>),
                 (''c.json'', \<lparr>version = ''2.1.2'', md5 = ''md5-C'', assetId = Some 100\<rparr>)])\<rparr>)
   \<and> shouldBuild sample_env ''2.1.2'' Stable
       (load_tracker
         \<lparr>releases = [(''2.1.2'', Stable, ''202401311200'')],
          uploads = [(''upload-url'',
           \<lparr>asset_buildName = ''c.json'', asset_filename = ''fw-2.1.2.bin'',
            asset_buildPath = ''dist/c.json'', asset_action = Create, asset_assetId = None\<rparr>)],
          tracker_file = (\<lambda>k. None)(Stable :=
           Some [(''a.json'', \<lparr>version = ''2.1.2'', md5 = ''md5-A'', assetId = Some 42\<rparr>),
                 (''c.json'', \<lparr>version = ''2.1.2'', md5 = ''md5-C'', assetId = Some 100\<rparr>)])\<rparr>
         Stable)
       [(''a.json'', sample_build True None None),
        (''c.json'', sample_build True None None),
        (''b.json'', sample_build False None None)]
     = Inr (False,
       [(''a.json'', \<lparr>version = ''2.1.2'', md5 = ''md5-A'', assetId = None,
          build = sample_build True None None, action = Create\<rparr>),
        (''c.json'', \<lparr>version = ''2.1.2'', md5 = ''md5-C'', assetId = None,
          build = sample_build True None None, action = Create\<rparr>)])"
  by (intro conjI) (simp_all add: run_defs build_defs)

text \<open>
  C10, amended by two conditions: the loop of the first run ends without an exception,
  and the version gate lets the re-enabled build through. Run 1: the tracker has loaded,
  the build \<open>name\<close> is disabled or restricted to the other channel, and the loop runs to
  its end with the decisions \<open>decs1\<close>. Whatever version the tracker held for the build,
  its decision is \<^verbatim>\<open>ignore\<close> with the latest version \<open>v1\<close> of this run and the digest of
  the file as it is now. \<^verbatim>\<open>doBuild\<close> then publishes at least one asset and writes the
  tracker. Run 2: the same catalog, files and latest version, except that the build is
  enabled again and passes the version gate. The run returns with every decision
  \<^verbatim>\<open>ignore\<close>, the re-enabled build included, so nothing is built at \<open>v1\<close>.
\<close>

theorem disabled_build_reenabled_is_ignored:
  assumes dist: "distinct (map fst builds1)"
    and mem: "(name, b1) \<in> set builds1"
    and dis: "disabled k b1"
    and run1: "try_loop E v1 k tb1 builds1 [] = (None, decs1)"
    and pub: "doBuild X C False v1 k decs1 w = (None, w')"
    and some: "collect_assets X C v1 k decs1 [] \<noteq> Inr []"
    and act2: "\<not> disabled k b2"
    and gate2: "min_version_gate E v1 k name b2 = Inr False"
  shows "\<exists>content t decs2.
      readFile E name = Some content \<and> tb1 name = Some t
    \<and> shouldBuild E v1 k (Some tb1) builds1 = Inr (all_ignore decs1, decs1)
    \<and> map_of decs1 name =
        Some \<lparr>version = v1, md5 = md5_hex E content, assetId = assetId t, build = b1,
          action = Ignore\<rparr>
    \<and> shouldBuild E v1 k (load_tracker w' k)
          (map (\<lambda>(m, b). if m = name then (m, b2) else (m, b)) builds1)
        = Inr (True, decs2)
    \<and> map_of decs2 name =
        Some \<lparr>version = v1, md5 = md5_hex E content, assetId = assetId t, build = b2,
          action = Ignore\<rparr>"
proof -
  let ?builds2 = "map (\<lambda>(m, b). if m = name then (m, b2) else (m, b)) builds1"
  note look1 = for_entries_lookup[OF run1[unfolded try_loop_for_entries] dist mem]
  from look1 try_body_disabled_not_Continue[OF dis, of E v1 tb1 name]
  obtain d1 where d1: "try_body E v1 k tb1 name b1 = Assign d1" "map_of decs1 name = Some d1"
    by auto
  from d1(1) try_body_disabled[OF dis, of E v1 tb1 name d1]
  obtain content t where rd: "readFile E name = Some content" and t: "tb1 name = Some t"
    and d1_eq: "d1 = \<lparr>version = v1, md5 = md5_hex E content, assetId = assetId t, build = b1,
          action = Ignore\<rparr>" by auto
  have first: "shouldBuild E v1 k (Some tb1) builds1 = Inr (all_ignore decs1, decs1)"
    using run1 by (simp add: shouldBuild_def shouldBuild_defs_def)
  from persisted_tracker[OF run1 pub some] obtain tb2 where
    load: "load_tracker w' k = Some tb2"
    and tb2: "\<And>m d. map_of decs1 m = Some d \<Longrightarrow>
            \<exists>aid. tb2 m = Some \<lparr>version = version d, md5 = md5 d, assetId = aid\<rparr>"
    and ign: "\<And>m d. map_of decs1 m = Some d \<Longrightarrow> action d = Ignore \<Longrightarrow>
            tb2 m = Some \<lparr>version = version d, md5 = md5 d, assetId = assetId d\<rparr>"
    by blast
  have tb2_name: "tb2 name = Some \<lparr>version = v1, md5 = md5_hex E content, assetId = assetId t\<rparr>"
    using ign[OF d1(2)] by (simp add: d1_eq)
  have keys2: "map fst ?builds2 = map fst builds1"
    by (induction builds1) auto
  have dist2: "distinct (map fst ?builds2)" using dist by (simp only: keys2)
  have mem2: "(name, b2) \<in> set ?builds2" using mem by force
  have origin: "\<exists>b0. (m, b0) \<in> set builds1 \<and>
      (b = b0 \<or> disabled k b0 \<and> \<not> disabled k b \<and> min_version_gate E v1 k m b = Inr False)"
    if "(m, b) \<in> set ?builds2" for m b
  proof (cases "m = name")
    case True
    with that have "b = b2" by (auto split: if_splits)
    with True mem dis act2 gate2 show ?thesis by blast
  next
    case False
    with that have "(m, b) \<in> set builds1" by (auto split: if_splits)
    then show ?thesis by blast
  qed
  have "\<exists>decs2. try_loop E v1 k tb2 ?builds2 [] = (None, decs2) \<and> all_ignore decs2"
  proof (rule second_run_all_ignore[OF dist run1])
    show "\<exists>aid. tb2 m = Some \<lparr>version = version d, md5 = md5 d, assetId = aid\<rparr>"
      if "map_of decs1 m = Some d" for m d
      using that by (rule tb2)
    show "\<exists>b0. (m, b0) \<in> set builds1 \<and>
      (b = b0 \<or> disabled k b0 \<and> \<not> disabled k b \<and> min_version_gate E v1 k m b = Inr False)"
      if "(m, b) \<in> set ?builds2" for m b
      using that by (rule origin)
  qed
  then obtain decs2 where
    run2: "try_loop E v1 k tb2 ?builds2 [] = (None, decs2)" and all: "all_ignore decs2"
    by blast
  have second: "shouldBuild E v1 k (load_tracker w' k) ?builds2 = Inr (True, decs2)"
    using run2 all by (simp add: load shouldBuild_def shouldBuild_defs_def)
  have "try_body E v1 k tb2 name b2 =
    Assign \<lparr>version = v1, md5 = md5_hex E content, assetId = assetId t, build = b2,
      action = Ignore\<rparr>"
    using rd act2 gate2 tb2_name by (simp add: try_body_def)
  with for_entries_lookup[OF run2[unfolded try_loop_for_entries] dist2 mem2]
  have "map_of decs2 name =
        Some \<lparr>version = v1, md5 = md5_hex E content, assetId = assetId t, build = b2,
          action = Ignore\<rparr>" by auto
  with rd t first d1(2) d1_eq second show ?thesis by blast
qed

text \<open>The theorem at a tracker that holds version \<^verbatim>\<open>2.1.1\<close> for both builds while the
  latest version is \<^verbatim>\<open>2.1.2\<close>: \<^verbatim>\<open>a.json\<close> is disabled in the first run and enabled in
  the second.\<close>

theorem disabled_build_reenabled_is_ignored_witness:
  "\<exists>content t decs2.
      readFile sample_env ''a.json'' = Some content
    \<and> map_of [(''a.json'', \<lparr>version = ''2.1.1'', md5 = ''md5-A'', assetId = Some 42\<rparr>),
               (''b.json'', \<lparr>version = ''2.1.1'', md5 = ''md5-B'', assetId = Some 43\<rparr>)]
          ''a.json'' = Some t
    \<and> version t \<noteq> ''2.1.2''
    \<and> shouldBuild sample_env ''2.1.2'' Stable
          (load_tracker
            \<lparr>releases = [(''2.1.2'', Stable, ''202401311200'')],
             uploads = [(''upload-url'',
               \<lparr>asset_buildName = ''b.json'', asset_filename = ''fw-2.1.2.bin'',
                asset_buildPath = ''dist/b.json'', asset_action = Create,
                asset_assetId = None\<rparr>)],
             tracker_file = (\<lambda>k. None)(Stable :=
               Some [(''a.json'', \<lparr>version = ''2.1.2'', md5 = ''md5-A'', assetId = Some 42\<rparr>),
                     (''b.json'', \<lparr>version = ''2.1.2'', md5 = ''md5-B'', assetId = Some 100\<rparr>)])\<rparr>
            Stable)
          [(''a.json'', sample_build True None None), (''b.json'', sample_build True None None)]
        = Inr (True, decs2)
    \<and> map_of decs2 ''a.json'' =
        Some \<lparr>version = ''2.1.2'', md5 = md5_hex sample_env content, assetId = assetId t,
          build = sample_build True None None, action = Ignore\<rparr>"
proof -
  let ?tb1 = "map_of [(''a.json'', \<lparr>version = ''2.1.1'', md5 = ''md5-A'', assetId = Some (42::int)\<rparr>),
               (''b.json'', \<lparr>version = ''2.1.1'', md5 = ''md5-B'', assetId = Some 43\<rparr>)]"
  let ?builds1 = "[(''a.json'', sample_build False None None),
                   (''b.json'', sample_build True None None)]"
  let ?decs1 = "[(''a.json'', \<lparr>version = ''2.1.2'', md5 = ''md5-A'', assetId = Some 42,
                    build = sample_build False None None, action = Ignore\<rparr>),
                 (''b.json'', \<lparr>version = ''2.1.2'', md5 = ''md5-B'', assetId = None,
                    build = sample_build True None None, action = Create\<rparr>)]"
  let ?w' = "\<lparr>releases = [(''2.1.2'', Stable, ''202401311200'')],
             uploads = [(''upload-url'',
               \<lparr>asset_buildName = ''b.json'', asset_filename = ''fw-2.1.2.bin'',
                asset_buildPath = ''dist/b.json'', asset_action = Create,
                asset_assetId = None\<rparr>)],
             tracker_file = (\<lambda>k. None)(Stable :=
               Some [(''a.json'', \<lparr>version = ''2.1.2'', md5 = ''md5-A'', assetId = Some 42\<rparr>),
                     (''b.json'', \<lparr>version = ''2.1.2'', md5 = ''md5-B'', assetId = Some 100\<rparr>)])\<rparr>"
  have dist: "distinct (map fst ?builds1)" by simp
  have mem: "(''a.json'', sample_build False None None) \<in> set ?builds1" by simp
  have dis: "disabled Stable (sample_build False None None)"
    by (simp add: disabled_def sample_build_def)
  have run1: "try_loop sample_env ''2.1.2'' Stable ?tb1 ?builds1 [] = (None, ?decs1)"
    by (simp add: run_defs)
  have pub: "doBuild sample_collaborators sample_clock False ''2.1.2'' Stable ?decs1 sample_world
      = (None, ?w')"
    by (simp add: build_defs sample_build_def)
  have some: "collect_assets sample_collaborators sample_clock ''2.1.2'' Stable ?decs1 [] \<noteq> Inr []"
    by (simp add: build_defs sample_build_def)
  have act2: "\<not> disabled Stable (sample_build True None None)"
    by (simp add: disabled_def sample_build_def)
  have gate2: "min_version_gate sample_env ''2.1.2'' Stable ''a.json''
      (sample_build True None None) = Inr False"
    by (simp add: min_version_gate_def sample_build_def)
  from disabled_build_reenabled_is_ignored[OF dist mem dis run1 pub some act2 gate2]
  obtain content t decs2 where
    "readFile sample_env ''a.json'' = Some content" "?tb1 ''a.json'' = Some t"
    "shouldBuild sample_env ''2.1.2'' Stable (load_tracker ?w' Stable)
          (map (\<lambda>(m, b). if m = ''a.json'' then (m, sample_build True None None) else (m, b))
            ?builds1)
        = Inr (True, decs2)"
    "map_of decs2 ''a.json'' =
        Some \<lparr>version = ''2.1.2'', md5 = md5_hex sample_env content, assetId = assetId t,
          build = sample_build True None None, action = Ignore\<rparr>"
    by blast
  moreover from this(2) have "version t \<noteq> ''2.1.2''" by auto
  ultimately show ?thesis by (intro exI[of _ content] exI[of _ t] exI[of _ decs2]) simp
qed

section \<open>An empty asset batch\<close>

lemma collect_assets_grows:
  "collect_assets X C lv k defs as = Inr as' \<Longrightarrow> length as \<le> length as'"
proof (induction defs arbitrary: as)
  case Nil
  then show ?case by simp
next
  case (Cons p defs)
  obtain n d where p: "p = (n, d)" by (cases p)
  from Cons.prems Cons.IH[of as] Cons.IH[of "as @ [a]" for a] show ?case
    by (fastforce simp: p split: if_splits sum.splits option.splits)
qed

lemma collect_assets_empty_iff:
  "collect_assets X C lv k defs as = Inr as \<longleftrightarrow>
     (\<forall>(n, d) \<in> set defs. action d \<noteq> Ignore \<longrightarrow>
        processBuild X n (build d) k lv = Inr None
        \<or> processBuild X n (build d) k lv = Inr (Some []))"
proof (induction defs)
  case Nil
  then show ?case by simp
next
  case (Cons p defs)
  obtain n d where p: "p = (n, d)" by (cases p)
  have grown: "collect_assets X C lv k defs (as @ [a]) \<noteq> Inr as" for a
    using collect_assets_grows[of X C lv k defs "as @ [a]" as] by auto
  show ?case
  proof (cases "action d = Ignore")
    case True
    with Cons.IH show ?thesis by (simp add: p)
  next
    case False
    show ?thesis
    proof (cases "processBuild X n (build d) k lv")
      case (Inl e)
      with False show ?thesis by (simp add: p)
    next
      case (Inr path)
      with False Cons.IH grown show ?thesis
        by (cases path) (auto simp: p)
    qed
  qed
qed

text \<open>
  C9. The asset batch is empty exactly when \<^verbatim>\<open>processBuild\<close> gave no path (none, or
  the empty string) for every decision that is not \<^verbatim>\<open>ignore\<close>; this covers a decision
  map with nothing to build. With an empty batch \<^verbatim>\<open>doBuild\<close> returns without an error
  and leaves the world as it was: no release is added, no asset is uploaded, and the
  tracker files are the ones it found. This holds with and without \<^verbatim>\<open>devMode\<close>.
\<close>

theorem empty_batch_changes_nothing:
  "(collect_assets X C latestVersion k buildDefs [] = Inr [] \<longleftrightarrow>
      (\<forall>(n, d) \<in> set buildDefs. action d \<noteq> Ignore \<longrightarrow>
         processBuild X n (build d) k latestVersion = Inr None
         \<or> processBuild X n (build d) k latestVersion = Inr (Some [])))
   \<and> (collect_assets X C latestVersion k buildDefs [] = Inr [] \<longrightarrow>
        doBuild X C devMode latestVersion k buildDefs w = (None, w))"
proof (intro conjI impI)
  show "collect_assets X C latestVersion k buildDefs [] = Inr [] \<longleftrightarrow>
      (\<forall>(n, d) \<in> set buildDefs. action d \<noteq> Ignore \<longrightarrow>
         processBuild X n (build d) k latestVersion = Inr None
         \<or> processBuild X n (build d) k latestVersion = Inr (Some []))"
    by (rule collect_assets_empty_iff)
next
  assume "collect_assets X C latestVersion k buildDefs [] = Inr []"
  then show "doBuild X C devMode latestVersion k buildDefs w = (None, w)"
    by (simp add: doBuild_def)
qed

text \<open>The theorem at a decision map with one build to create, for which the processor
  returns nothing, and one ignored build; the tracker file that was there stays.\<close>

theorem empty_batch_changes_nothing_witness:
  "collect_assets (sample_collaborators\<lparr>processBuild := (\<lambda>name b k v. Inr None)\<rparr>)
      sample_clock ''2.1.2'' Stable
      [(''a.json'', \<lparr>version = ''2.1.2'', md5 = ''md5-A'', assetId = None,
          build = sample_build True None None, action = Create\<rparr>),
       (''b.json'', \<lparr>version = ''2.1.2'', md5 = ''md5-B'', assetId = Some 43,
          build = sample_build True None None, action = Ignore\<rparr>)] [] = Inr []
   \<and> doBuild (sample_collaborators\<lparr>processBuild := (\<lambda>name b k v. Inr None)\<rparr>)
      sample_clock False ''2.1.2'' Stable
      [(''a.json'', \<lparr>version = ''2.1.2'', md5 = ''md5-A'', assetId = None,
          build = sample_build True None None, action = Create\<rparr>),
       (''b.json'', \<lparr>version = ''2.1.2'', md5 = ''md5-B'', assetId = Some 43,
          build = sample_build True None None, action = Ignore\<rparr>)]
      (sample_world\<lparr>tracker_file := (\<lambda>k. None)(Stable :=
         Some [(''b.json'', \<lparr>version = ''2.1.2'', md5 = ''md5-B'', assetId = Some 43\<rparr>)])\<rparr>)
     = (None, sample_world\<lparr>tracker_file := (\<lambda>k. None)(Stable :=
         Some [(''b.json'', \<lparr>version = ''2.1.2'', md5 = ''md5-B'', assetId = Some 43\<rparr>)])\<rparr>)"
proof -
  let ?X = "sample_collaborators\<lparr>processBuild := (\<lambda>name b k v. Inr None)\<rparr>"
  let ?defs = "[(''a.json'', \<lparr>version = ''2.1.2'', md5 = ''md5-A'', assetId = None,
          build = sample_build True None None, action = Create\<rparr>),
       (''b.json'', \<lparr>version = ''2.1.2'', md5 = ''md5-B'', assetId = Some 43,
          build = sample_build True None None, action = Ignore\<rparr>)]"
  let ?w = "sample_world\<lparr>tracker_file := (\<lambda>k. None)(Stable :=
         Some [(''b.json'', \<lparr>version = ''2.1.2'', md5 = ''md5-B'', assetId = Some 43\<rparr>)])\<rparr>"
  note inst = empty_batch_changes_nothing[of "?X" sample_clock "''2.1.2''" Stable "?defs" False "?w"]
  have "\<forall>(n, d) \<in> set ?defs. action d \<noteq> Ignore \<longrightarrow>
         processBuild ?X n (build d) Stable ''2.1.2'' = Inr None
         \<or> processBuild ?X n (build d) Stable ''2.1.2'' = Inr (Some [])"
    by simp
  with inst have empty: "collect_assets ?X sample_clock ''2.1.2'' Stable ?defs [] = Inr []"
    by blast
  with inst have "doBuild ?X sample_clock False ''2.1.2'' Stable ?defs ?w = (None, ?w)"
    by blast
  with empty show ?thesis by simp
qed

section \<open>A disabled build without a tracker record\<close>

text \<open>
  C1 at a tracker that has loaded and holds no record for the disabled build
  \<^verbatim>\<open>a.json\<close>: line 125 reads \<^verbatim>\<open>trackedBuilds[buildName].assetId\<close> on
  \<^verbatim>\<open>undefined\<close>, the loop ends with a \<^verbatim>\<open>TypeError\<close>, the handler skips the build,
  and the run returns a map without a decision for it.
\<close>

theorem disabled_build_without_record:
  "try_loop sample_env ''2.1.2'' Stable Map.empty
     [(''a.json'', sample_build False None None)] []
   = (Some (TypeError ''a.json''), [])
   \<and> shouldBuild sample_env ''2.1.2'' Stable (Some Map.empty)
     [(''a.json'', sample_build False None None)]
   = Inr (True, [])"
  by (simp add: run_defs)

text \<open>
  Where the record is there and the loop runs to its end, the decision is the one the
  claim describes; and no run gives a disabled build any action but \<^verbatim>\<open>ignore\<close>.
\<close>

lemma disabled_build_with_record:
  assumes dist: "distinct (map fst loadedBuilds)"
    and mem: "(name, b) \<in> set loadedBuilds"
    and dis: "disabled k b"
    and run: "try_loop E latestVersion k trackedBuilds loadedBuilds [] = (None, newBuilds)"
  shows "\<exists>content t. readFile E name = Some content \<and> trackedBuilds name = Some t \<and>
    map_of newBuilds name =
      Some \<lparr>version = latestVersion, md5 = md5_hex E content, assetId = assetId t, build = b,
        action = Ignore\<rparr>"
  using for_entries_lookup[OF run[unfolded try_loop_for_entries] dist mem]
    try_body_disabled_not_Continue[OF dis, of E latestVersion trackedBuilds name]
    try_body_disabled[OF dis, of E latestVersion trackedBuilds name]
  by auto

lemma disabled_build_never_built:
  assumes dist: "distinct (map fst loadedBuilds)"
    and mem: "(name, b) \<in> set loadedBuilds"
    and dis: "disabled k b"
    and run: "shouldBuild E latestVersion k tracker loadedBuilds = Inr (ignore, newBuilds)"
    and entry: "map_of newBuilds name = Some d"
  shows "action d = Ignore"
proof -
  have try_any: "map_of nb name = None \<or> (\<exists>d. map_of nb name = Some d \<and> action d = Ignore)"
    if "try_loop E latestVersion k tb loadedBuilds [] = (r, nb)" for tb r nb
    using for_entries_lookup[OF that[unfolded try_loop_for_entries] dist mem]
      try_body_disabled[OF dis, of E latestVersion tb name]
    by auto
  have catch_any: "map_of nb' name = map_of nb name"
    if "catch_loop E latestVersion k loadedBuilds nb = Inr nb'" for nb nb'
    using for_entries_lookup[OF that[unfolded catch_loop_Inr] dist mem]
      catch_body_skip[of k b E latestVersion name] dis
    by auto
  from run have "shouldBuild_defs E latestVersion k tracker loadedBuilds = Inr newBuilds"
    by (simp add: shouldBuild_Inr)
  then show ?thesis
  proof (cases rule: shouldBuild_defs_elim)
    case (tracked tb)
    with try_any[OF tracked(2)] entry show ?thesis by auto
  next
    case bootstrap
    with catch_any[OF bootstrap(2)] entry show ?thesis by simp
  next
    case (handler tb e nb)
    with try_any[OF handler(2)] catch_any[OF handler(3)] entry show ?thesis by auto
  qed
qed

section \<open>Running twice\<close>

text \<open>
  C7 at a first run without a tracker, on a catalog with an active build \<^verbatim>\<open>a.json\<close>
  and a disabled build \<^verbatim>\<open>b.json\<close>. The first run decides to create \<^verbatim>\<open>a.json\<close>
  and has no entry for \<^verbatim>\<open>b.json\<close>; \<^verbatim>\<open>doBuild\<close> uploads the asset and writes the
  tracker. The second run, on that tracker, with the same catalog, files and version,
  throws at \<^verbatim>\<open>b.json\<close> (no record), enters the handler and decides to create
  \<^verbatim>\<open>a.json\<close> again.
\<close>

theorem second_run_rebuilds:
  "shouldBuild sample_env ''2.1.2'' Stable None
     [(''a.json'', sample_build True None None), (''b.json'', sample_build False None None)]
   = Inr (False,
       [(''a.json'', \<lparr>version = ''2.1.2'', md5 = ''md5-A'', assetId = None,
          build = sample_build True None None, action = Create\<rparr>)])
   \<and> doBuild sample_collaborators sample_clock False ''2.1.2'' Stable
       [(''a.json'', \<lparr>version = ''2.1.2'', md5 = ''md5-A'', assetId = None,
          build = sample_build True None None, action = Create\<rparr>)] sample_world
     = (None,
        \<lparr>releases = [(''2.1.2'', Stable, ''202401311200'')],
         uploads = [(''upload-url'',
           \<lparr>asset_buildName = ''a.json'', asset_filename = ''fw-2.1.2.bin'',
            asset_buildPath = ''dist/a.json'', asset_action = Create, asset_assetId = None\<rparr>)],
         tracker_file = (\<lambda>k. None)(Stable :=
           Some [(''a.json'', \<lparr>version = ''2.1.2'', md5 = ''md5-A'', assetId = Some 100\<rparr>)])\<rparr>)
   \<and> shouldBuild sample_env ''2.1.2'' Stable
       (load_tracker
         \<lparr>releases = [(''2.1.2'', Stable, ''202401311200'')],
          uploads = [(''upload-url'',
           \<lparr>asset_buildName = ''a.json'', asset_filename = ''fw-2.1.2.bin'',
            asset_buildPath = ''dist/a.json'', asset_action = Create, asset_assetId = None\<rparr>)],
          tracker_file = (\<lambda>k. None)(Stable :=
           Some [(''a.json'', \<lparr>version = ''2.1.2'', md5 = ''md5-A'', assetId = Some 100\<rparr>)])\<rparr>
         Stable)
       [(''a.json'', sample_build True None None), (''b.json'', sample_build False None None)]
     = Inr (False,
       [(''a.json'', \<lparr>version = ''2.1.2'', md5 = ''md5-A'', assetId = None,
          build = sample_build True None None, action = Create\<rparr>)])"
  by (simp add: run_defs build_defs)

section \<open>Rendering a filename\<close>

lemma get_substitution_no_dollar:
  "CHR ''$'' \<notin> set rep \<Longrightarrow> get_substitution matched before after rep = rep"
  by (induction matched before after rep rule: get_substitution.induct) auto

lemma tag_nonempty: "tag h \<noteq> []"
  by (cases h) simp_all

lemma js_replace_from_hit:
  "CHR ''$'' \<notin> set rep \<Longrightarrow>
   js_replace_from (tag h) rep before (tag h @ rest) = before @ rep @ rest"
  by (cases h) (simp_all add: get_substitution_no_dollar)

lemma js_replace_from_skip_text:
  "CHR ''{'' \<notin> set s \<Longrightarrow>
   js_replace_from (tag h) rep before (s @ rest) = js_replace_from (tag h) rep (before @ s) rest"
proof (induction s arbitrary: before)
  case Nil
  then show ?case by simp
next
  case (Cons c s)
  then have "c \<noteq> CHR ''{''" by auto
  then have "\<not> prefix (tag h) (c # s @ rest)" by (cases h) simp_all
  with Cons show ?case by simp
qed

lemma js_replace_from_skip_tag:
  "h' \<noteq> h \<Longrightarrow>
   js_replace_from (tag h) rep before (tag h' @ rest)
     = js_replace_from (tag h) rep (before @ tag h') rest"
  by (cases h; cases h') simp_all

lemma js_replace_from_end: "js_replace_from (tag h) rep before [] = before"
  by (cases h) simp_all

lemma fill_cong: "(\<And>h. h \<in> set (holes ps) \<Longrightarrow> f h = g h) \<Longrightarrow> fill f ps = fill g ps"
  by (induction ps rule: holes.induct) auto

lemma replace_fill:
  assumes "f h = tag h"
    and "\<And>h'. h' \<noteq> h \<Longrightarrow> f h' = tag h' \<or> CHR ''{'' \<notin> set (f h')"
    and "g h = rep"
    and "\<And>h'. h' \<noteq> h \<Longrightarrow> g h' = f h'"
    and "CHR ''$'' \<notin> set rep"
    and "\<And>t. t \<in> set (texts ps) \<Longrightarrow> CHR ''{'' \<notin> set t"
    and "distinct (holes ps)"
  shows "js_replace_from (tag h) rep before (fill f ps) = before @ fill g ps"
  using assms(6,7)
proof (induction ps arbitrary: before rule: holes.induct)
  case 1
  show ?case by (simp add: tag_nonempty)
next
  case (2 t ps)
  then show ?case by (simp add: js_replace_from_skip_text)
next
  case (3 h' ps)
  show ?case
  proof (cases "h' = h")
    case True
    with 3 have "h \<notin> set (holes ps)" by simp
    then have "fill f ps = fill g ps" using assms(4) by (intro fill_cong) metis
    with True assms(1,3,5) show ?thesis by (simp add: js_replace_from_hit)
  next
    case False
    from 3 have IH: "\<And>before. js_replace_from (tag h) rep before (fill f ps)
        = before @ fill g ps" by simp
    from assms(2)[OF False] show ?thesis
    proof
      assume "f h' = tag h'"
      with False IH assms(4) show ?thesis by (simp add: js_replace_from_skip_tag)
    next
      assume "CHR ''{'' \<notin> set (f h')"
      with False IH assms(4) show ?thesis by (simp add: js_replace_from_skip_text)
    qed
  qed
qed

lemma js_replace_fill:
  assumes "f h = tag h"
    and "\<And>h'. h' \<noteq> h \<Longrightarrow> f h' = tag h' \<or> CHR ''{'' \<notin> set (f h')"
    and "g h = rep"
    and "\<And>h'. h' \<noteq> h \<Longrightarrow> g h' = f h'"
    and "CHR ''$'' \<notin> set rep"
    and "\<And>t. t \<in> set (texts ps) \<Longrightarrow> CHR ''{'' \<notin> set t"
    and "distinct (holes ps)"
  shows "js_replace (tag h) rep (fill f ps) = fill g ps"
  unfolding js_replace_def using replace_fill[OF assms, of "[]"] by simp

lemma digit_char_plain: "d < 10 \<Longrightarrow> digit_char d \<in> set ''0123456789''"
  unfolding digit_char_def by (rule nth_mem) simp

lemma nat_toString_digits: "set (nat_toString n) \<subseteq> set ''0123456789''"
proof (induction n rule: nat_toString.induct)
  case (1 n)
  show ?case
  proof (cases "n < 10")
    case True
    then show ?thesis using digit_char_plain[of n] by (subst nat_toString.simps) simp
  next
    case False
    with 1 have "set (nat_toString (n div 10)) \<subseteq> set ''0123456789''" by simp
    moreover have "digit_char (n mod 10) \<in> set ''0123456789''"
      by (rule digit_char_plain) simp
    ultimately show ?thesis using False by (subst nat_toString.simps) simp
  qed
qed

lemma nat_toString_plain: "plain (nat_toString n)"
  using nat_toString_digits[of n] unfolding plain_def by auto

lemma nat_toString_six:
  assumes "100000 \<le> n" "n < 999999"
  shows "length (nat_toString n) = 6"
proof -
  have step: "length (nat_toString m) = Suc (length (nat_toString (m div 10)))"
    if "10 \<le> m" for m
    using that by (subst nat_toString.simps) simp
  have base: "length (nat_toString m) = 1" if "m < 10" for m
    using that by (subst nat_toString.simps) simp
  from assms have "10 \<le> n" "10 \<le> n div 10" "10 \<le> n div 10 div 10"
    "10 \<le> n div 10 div 10 div 10" "10 \<le> n div 10 div 10 div 10 div 10"
    "n div 10 div 10 div 10 div 10 div 10 < 10"
    by simp_all
  then show ?thesis by (simp add: step base)
qed

lemma replacements_fill:
  assumes texts: "\<forall>t \<in> set (texts ps). CHR ''{'' \<notin> set t"
    and once: "distinct (holes ps)"
    and v: "plain v" and d: "plain date"
  shows "js_replace ''{{uid}}'' (nat_toString uid)
          (js_replace ''{{timestamp}}'' (nat_toString ts)
            (js_replace ''{{current_date}}'' date
              (js_replace ''{{marlin_version}}'' v (fill tag ps))))
        = fill (placeholder_values v date ts uid) ps"
proof -
  let ?g1 = "\<lambda>h. case h of MarlinVersion \<Rightarrow> v | _ \<Rightarrow> tag h"
  let ?g2 = "\<lambda>h. case h of MarlinVersion \<Rightarrow> v | CurrentDate \<Rightarrow> date | _ \<Rightarrow> tag h"
  let ?g3 = "\<lambda>h. case h of MarlinVersion \<Rightarrow> v | CurrentDate \<Rightarrow> date
              | Timestamp \<Rightarrow> nat_toString ts | Uid \<Rightarrow> tag Uid"
  note tx = texts[rule_format]
  from v d have pv: "CHR ''{'' \<notin> set v" "CHR ''$'' \<notin> set v"
    and pd: "CHR ''{'' \<notin> set date" "CHR ''$'' \<notin> set date"
    by (simp_all add: plain_def)
  have pt: "CHR ''{'' \<notin> set (nat_toString n)" "CHR ''$'' \<notin> set (nat_toString n)" for n
    using nat_toString_plain[of n] by (simp_all add: plain_def)
  have 1: "js_replace (tag MarlinVersion) v (fill tag ps) = fill ?g1 ps"
  proof (rule js_replace_fill[OF _ _ _ _ pv(2) tx once])
    show "?g1 h' = tag h'" if "h' \<noteq> MarlinVersion" for h'
      using that by (cases h') simp_all
  qed simp_all
  have 2: "js_replace (tag CurrentDate) date (fill ?g1 ps) = fill ?g2 ps"
  proof (rule js_replace_fill[OF _ _ _ _ pd(2) tx once])
    show "?g1 h' = tag h' \<or> CHR ''{'' \<notin> set (?g1 h')" if "h' \<noteq> CurrentDate" for h'
      using that pv by (cases h') simp_all
    show "?g2 h' = ?g1 h'" if "h' \<noteq> CurrentDate" for h'
      using that by (cases h') simp_all
  qed simp_all
  have 3: "js_replace (tag Timestamp) (nat_toString ts) (fill ?g2 ps) = fill ?g3 ps"
  proof (rule js_replace_fill[OF _ _ _ _ pt(2) tx once])
    show "?g2 h' = tag h' \<or> CHR ''{'' \<notin> set (?g2 h')" if "h' \<noteq> Timestamp" for h'
      using that pv pd by (cases h') simp_all
    show "?g3 h' = ?g2 h'" if "h' \<noteq> Timestamp" for h'
      using that by (cases h') simp_all
  qed simp_all
  have 4: "js_replace (tag Uid) (nat_toString uid) (fill ?g3 ps)
      = fill (placeholder_values v date ts uid) ps"
  proof (rule js_replace_fill[OF _ _ _ _ pt(2) tx once])
    show "?g3 h' = tag h' \<or> CHR ''{'' \<notin> set (?g3 h')" if "h' \<noteq> Uid" for h'
      using that pv pd pt by (cases h') simp_all
    show "placeholder_values v date ts uid h' = ?g3 h'" if "h' \<noteq> Uid" for h'
      using that by (cases h') simp_all
  qed simp_all
  from 1 2 3 4 show ?thesis by simp
qed

text \<open>
  C8, as stated, at a template that holds all four placeholders and \<^verbatim>\<open>{{uid}}\<close> twice:
  the second \<^verbatim>\<open>{{uid}}\<close> is still there in the rendered filename.
  \<^verbatim>\<open>replace\<close> with a string pattern stops at the first match.
\<close>

theorem second_occurrence_counterexample:
  "render_filename ''fw-{{marlin_version}}-{{current_date}}-{{timestamp}}-{{uid}}-{{uid}}''
     ''2.1.2'' ''20240131'' 1706702400 123456
   = ''fw-2.1.2-20240131-1706702400-123456-{{uid}}.bin''"
  by (simp add: render_filename_def js_replace_def nat_toString.simps digit_char_def Let_def
      suffix_to_prefix)

text \<open>A version string is read as a replacement pattern: \<^verbatim>\<open>$&\<close> puts the placeholder
  back.\<close>

lemma dollar_in_version:
  "render_filename ''fw-{{marlin_version}}'' ''$&'' ''20240131'' 1706702400 123456
   = ''fw-{{marlin_version}}.bin''"
  by (simp add: render_filename_def js_replace_def nat_toString.simps digit_char_def Let_def
      suffix_to_prefix)

text \<open>
  C8, amended. For a template made of literal text without an opening brace and of
  placeholders, each placeholder at most once, and a version and a date string without
  brace and dollar sign: the rendered filename is the template with every placeholder
  replaced by its value (version, date, timestamp and random number in decimal), with
  \<^verbatim>\<open>.bin\<close> appended unless that text ends with \<^verbatim>\<open>.bin\<close> already. So it ends with
  \<^verbatim>\<open>.bin\<close>, and not with \<^verbatim>\<open>.bin.bin\<close> when the template produced no extension. The
  random number, at least 100000 and below 999999, has six digits.
\<close>

theorem render_filename_fills_template:
  assumes texts: "\<forall>t \<in> set (texts ps). CHR ''{'' \<notin> set t"
    and once: "distinct (holes ps)"
    and v: "plain v" and d: "plain date"
  shows "render_filename (fill tag ps) v date ts uid =
           (if suffix ''.bin'' (fill (placeholder_values v date ts uid) ps)
            then fill (placeholder_values v date ts uid) ps
            else fill (placeholder_values v date ts uid) ps @ ''.bin'')
       \<and> suffix ''.bin'' (render_filename (fill tag ps) v date ts uid)
       \<and> (\<not> suffix ''.bin'' (fill (placeholder_values v date ts uid) ps) \<longrightarrow>
            \<not> suffix ''.bin.bin'' (render_filename (fill tag ps) v date ts uid))
       \<and> (100000 \<le> uid \<and> uid < 999999 \<longrightarrow>
            length (placeholder_values v date ts uid Uid) = 6)"
proof -
  let ?r = "fill (placeholder_values v date ts uid) ps"
  have eq: "render_filename (fill tag ps) v date ts uid =
      (if suffix ''.bin'' ?r then ?r else ?r @ ''.bin'')"
    unfolding render_filename_def replacements_fill[OF assms] by (simp add: Let_def)
  have ends: "suffix ''.bin'' (render_filename (fill tag ps) v date ts uid)"
    unfolding eq by (simp add: suffix_def)
  have "suffix (''.bin'' @ ''.bin'') (?r @ ''.bin'') = suffix ''.bin'' ?r"
    by (rule same_suffix_suffix)
  then have "\<not> suffix ''.bin.bin'' (?r @ ''.bin'')" if "\<not> suffix ''.bin'' ?r"
    using that by simp
  then have once_only: "\<not> suffix ''.bin'' ?r \<longrightarrow>
      \<not> suffix ''.bin.bin'' (render_filename (fill tag ps) v date ts uid)"
    unfolding eq by simp
  have six: "100000 \<le> uid \<and> uid < 999999 \<longrightarrow> length (placeholder_values v date ts uid Uid) = 6"
    by (simp add: nat_toString_six)
  from eq ends once_only six show ?thesis by (intro conjI)
qed

text \<open>The theorem at a template with the four placeholders.\<close>

theorem render_filename_fills_template_witness:
  "render_filename ''fw-{{marlin_version}}-{{current_date}}-{{timestamp}}-{{uid}}''
     ''2.1.2'' ''20240131'' 1706702400 123456
   = ''fw-2.1.2-20240131-1706702400-123456.bin''
   \<and> suffix ''.bin'' ''fw-2.1.2-20240131-1706702400-123456.bin''
   \<and> \<not> suffix ''.bin.bin'' ''fw-2.1.2-20240131-1706702400-123456.bin''
   \<and> length ''123456'' = 6"
proof -
  let ?ps = "[Text ''fw-'', Hole MarlinVersion, Text ''-'', Hole CurrentDate, Text ''-'',
              Hole Timestamp, Text ''-'', Hole Uid]"
  have tmpl: "fill tag ?ps = ''fw-{{marlin_version}}-{{current_date}}-{{timestamp}}-{{uid}}''"
    by simp
  have vals: "fill (placeholder_values ''2.1.2'' ''20240131'' 1706702400 123456) ?ps
      = ''fw-2.1.2-20240131-1706702400-123456''"
    by (simp add: nat_toString.simps digit_char_def)
  have uid: "placeholder_values ''2.1.2'' ''20240131'' 1706702400 123456 Uid = ''123456''"
    by (simp add: nat_toString.simps digit_char_def)
  have nobin: "\<not> suffix ''.bin'' ''fw-2.1.2-20240131-1706702400-123456''"
    by (simp add: suffix_to_prefix)
  have h1: "\<forall>t \<in> set (texts ?ps). CHR ''{'' \<notin> set t" by simp
  have h2: "distinct (holes ?ps)" by simp
  have h3: "plain ''2.1.2''" and h4: "plain ''20240131''" by (simp_all add: plain_def)
  note inst = render_filename_fills_template[OF h1 h2 h3 h4, of 1706702400 123456,
      unfolded tmpl vals uid]
  from inst have a: "render_filename
      ''fw-{{marlin_version}}-{{current_date}}-{{timestamp}}-{{uid}}''
      ''2.1.2'' ''20240131'' 1706702400 123456 = ''fw-2.1.2-20240131-1706702400-123456.bin''"
    using nobin by simp
  from inst nobin have b: "suffix ''.bin'' ''fw-2.1.2-20240131-1706702400-123456.bin''"
    and c: "\<not> suffix ''.bin.bin'' ''fw-2.1.2-20240131-1706702400-123456.bin''"
    unfolding a by blast+
  from a b c show ?thesis by simp
qed

end
